theory Spec2Isabelle
  imports Complex_Main "HOL-Library.Char_ord" "HOL-Library.List_Lexorder" "HOL-Library.Multiset"
begin

section \<open>The wallet database of \<open>Hackada/backend.py\<close>\<close>

text \<open>
  The class \<open>WalletDatabase\<close> keeps two fields: \<open>users\<close>, a dict from e-mail address to
  a user dict, and \<open>transactions\<close>, a list of transaction dicts. Its methods mutate both in
  place; here every method takes the database and returns its outcome together with the
  database after the call.

  Numbers. A balance is a \<open>decimal.Decimal\<close>, modelled by its value, a rational number.
  The source never changes the decimal context, so \<open>+=\<close> and \<open>-=\<close> on a balance round
  their exact result to the 28 significant digits of the default context, with rounding
  \<open>ROUND_HALF_EVEN\<close>: this is \<open>dec_round\<close> below. Comparisons of decimals are exact. The
  exponent limits of the context (\<open>Emax = 999999\<close>, \<open>Emin = -999999\<close>) are taken not
  to be reached. The argument \<open>amount\<close> of \<open>add_money\<close> and \<open>send_money\<close> enters the
  balance as \<open>Decimal(str(amount))\<close>, a conversion that does not round: the model's
  \<open>amount\<close> is that decimal value. Amounts that are not finite numbers (\<open>nan\<close>,
  \<open>inf\<close>) are outside the model.

  The log stores \<open>float(amount)\<close> and \<open>float(balance)\<close>, Python floats, which are
  binary doubles. \<open>PyFloat q\<close> is the float that \<open>float\<close> gives for a number of value
  \<open>q\<close>: the double nearest to \<open>q\<close>, a tie going to the even one. \<open>float_round\<close>
  below computes the value of that double and \<open>float_value\<close> reads it off a float. When
  \<open>amount\<close> is itself a float, \<open>str\<close> gives the shortest decimal that rounds back to
  it, so the float logged for it is \<open>amount\<close>. Beyond the range of a double,
  \<open>float(amount)\<close> is \<open>inf\<close> when \<open>amount\<close> is a \<open>Decimal\<close>; when it is an
  \<open>int\<close>, \<open>float(amount)\<close> raises \<open>OverflowError\<close>, which in \<open>add_money\<close> and
  \<open>send_money\<close> happens after the balances have been updated and before anything is
  logged. The model does not have this exception: for such an \<open>int\<close> its balances are
  those of the code, its log and its outcome are not. Where the value of a logged amount is
  read, in the replay of the log and in the statement on the amounts of the log, the
  amounts of the calls are within the range of a double (\<open>finite_float\<close>).

  Values drawn from the environment, \<open>str(uuid.uuid4())\<close> and
  \<open>datetime.now().isoformat()\<close>, are arguments of the modelled methods, one for each call
  the source makes, in the order it makes them. A time stamp is an ISO-8601 string, compared
  as Python compares strings: lexicographically by character code.

  \<open>login_user\<close> and the screens of the application are left out, but for the two
  dialog callbacks that call \<open>add_money\<close> and \<open>send_money\<close>. Calls are made one at a
  time.
\<close>

type_synonym decimal = rat

datatype pyfloat = PyFloat rat

record user =
  id_user :: string
  email :: string
  password_hash :: string
  full_name :: string
  balance :: decimal

datatype tx_type = credit | transfer_out | transfer_in

text \<open>
  A transaction dict. The keys \<open>recipient_email\<close> and \<open>sender_email\<close> exist only in
  entries of type \<open>transfer_out\<close> and \<open>transfer_in\<close>; an absent key is \<open>None\<close>.
\<close>

record transaction =
  id_tx :: string
  user_id :: string
  type_tx :: tx_type
  amount :: pyfloat
  description :: string
  recipient_email :: "string option"
  sender_email :: "string option"
  timestamp :: string
  balance_after :: pyfloat

text \<open>
  \<open>users\<close> lists the dict's items in insertion order, which is the order
  \<open>self.users.values()\<close> iterates in.
\<close>

record WalletDatabase =
  users :: "(string \<times> user) list"
  transactions :: "transaction list"

text \<open>The error strings the methods return, and the \<open>ValueError\<close> of the dialogs.\<close>

datatype error =
    EmailAlreadyRegistered
  | UserNotFound
  | SenderNotFound
  | RecipientNotFound
  | CannotSendToYourself
  | InsufficientBalance
  | AmountMustBePositive

fun message :: "error \<Rightarrow> string" where
  "message EmailAlreadyRegistered = ''Email already registered''"
| "message UserNotFound = ''User not found''"
| "message SenderNotFound = ''Sender not found''"
| "message RecipientNotFound = ''Recipient not found''"
| "message CannotSendToYourself = ''Cannot send money to yourself''"
| "message InsufficientBalance = ''Insufficient balance''"
| "message AmountMustBePositive = ''Amount must be positive''"

subsection \<open>The decimal context\<close>

text \<open>The number of decimal digits of a positive integer.\<close>

function num_digits :: "int \<Rightarrow> nat" where
  "num_digits n = (if n < 10 then 1 else Suc (num_digits (n div 10)))"
  by pat_completeness auto
termination
  by (relation "measure nat") auto

text \<open>\<open>pow10 e\<close> is ten to the power \<open>e\<close>, for an integer \<open>e\<close> of either sign.\<close>

definition pow10 :: "int \<Rightarrow> rat" where
  "pow10 e = (if 0 \<le> e then 10 ^ nat e else 1 / 10 ^ nat (- e))"

text \<open>
  For a positive \<open>q\<close>, \<open>ilog10 q\<close> is the exponent of its leading digit: the integer
  \<open>k\<close> with \<open>pow10 k \<le> q < pow10 (k + 1)\<close>.
\<close>

definition ilog10 :: "rat \<Rightarrow> int" where
  "ilog10 q =
     (let k = int (num_digits (fst (quotient_of q)))
              - int (num_digits (snd (quotient_of q)))
      in if pow10 k \<le> q then k else k - 1)"

text \<open>The nearest integer, a tie going to the even one.\<close>

definition round_half_even :: "rat \<Rightarrow> int" where
  "round_half_even x =
     (let f = \<lfloor>x\<rfloor>; r = x - of_int f
      in if r < 1 / 2 then f else if 1 / 2 < r then f + 1 else if even f then f else f + 1)"

text \<open>
  The rounding of the default decimal context: the nearest number with at most 28
  significant digits. \<open>unrounded q\<close> says that the context leaves \<open>q\<close> as it is.
\<close>

definition dec_round :: "rat \<Rightarrow> rat" where
  "dec_round q =
     (if q = 0 then 0
      else
        let e = ilog10 \<bar>q\<bar> - 27;
            r = of_int (round_half_even (\<bar>q\<bar> / pow10 e)) * pow10 e
        in if 0 < q then r else - r)"

definition unrounded :: "rat \<Rightarrow> bool" where
  "unrounded q = (dec_round q = q)"

subsection \<open>Python floats\<close>

text \<open>The number of binary digits of a positive integer.\<close>

function num_bits :: "int \<Rightarrow> nat" where
  "num_bits n = (if n < 2 then 1 else Suc (num_bits (n div 2)))"
  by pat_completeness auto
termination
  by (relation "measure nat") auto

text \<open>\<open>pow2 e\<close> is two to the power \<open>e\<close>, for an integer \<open>e\<close> of either sign.\<close>

definition pow2 :: "int \<Rightarrow> rat" where
  "pow2 e = (if 0 \<le> e then 2 ^ nat e else 1 / 2 ^ nat (- e))"

text \<open>
  For a positive \<open>q\<close>, \<open>ilog2 q\<close> is the exponent of its leading binary digit: the
  integer \<open>k\<close> with \<open>pow2 k \<le> q < pow2 (k + 1)\<close>.
\<close>

definition ilog2 :: "rat \<Rightarrow> int" where
  "ilog2 q =
     (let k = int (num_bits (fst (quotient_of q)))
              - int (num_bits (snd (quotient_of q)))
      in if pow2 k \<le> q then k else k - 1)"

text \<open>
  The value of \<open>float(x)\<close> for a number \<open>x\<close> of value \<open>q\<close>: the nearest binary double,
  a tie going to the even one. A double has 53 significant binary digits, and its last
  digit is worth at least \<open>pow2 (- 1074)\<close>, the smallest positive double. The largest
  double is \<open>2 ^ 1024 - 2 ^ 971\<close>; when the rounded value would be \<open>2 ^ 1024\<close> or more,
  \<open>float(x)\<close> is no finite double and \<open>finite_float q\<close> is false. \<open>is_double q\<close> says
  that \<open>q\<close> is the value of a finite double, which \<open>float\<close> then returns unchanged.
\<close>

definition float_round :: "rat \<Rightarrow> rat" where
  "float_round q =
     (if q = 0 then 0
      else
        let e = max (ilog2 \<bar>q\<bar> - 52) (- 1074);
            r = of_int (round_half_even (\<bar>q\<bar> / pow2 e)) * pow2 e
        in if 0 < q then r else - r)"

definition min_float :: rat where
  "min_float = pow2 (- 1074)"

definition finite_float :: "rat \<Rightarrow> bool" where
  "finite_float q = (float_round \<bar>q\<bar> < 2 ^ 1024)"

definition is_double :: "rat \<Rightarrow> bool" where
  "is_double q = (finite_float q \<and> float_round q = q)"

fun float_value :: "pyfloat \<Rightarrow> rat" where
  "float_value (PyFloat q) = float_round q"

subsection \<open>\<open>__init__\<close>\<close>

text \<open>\<open>hash_password123\<close> is \<open>hashlib.sha256('password123'.encode()).hexdigest()\<close>.\<close>

definition hash_password123 :: string where
  "hash_password123 = ''ef92b778bafe771e89245b89ecbc08a44a4e166c06659911881f383d4473e94f''"

definition WalletDatabase_init :: WalletDatabase where
  "WalletDatabase_init =
     \<lparr>users =
        [(''alice@example.com'',
          \<lparr>id_user = ''1'', email = ''alice@example.com'', password_hash = hash_password123,
           full_name = ''Alice Smith'', balance = 1000\<rparr>),
         (''bob@example.com'',
          \<lparr>id_user = ''2'', email = ''bob@example.com'', password_hash = hash_password123,
           full_name = ''Bob Johnson'', balance = 500\<rparr>)],
      transactions = []\<rparr>"

subsection \<open>\<open>register_user\<close>\<close>

text \<open>
  \<open>pw_hash\<close> is \<open>self._hash_password(password)\<close> and \<open>uuid\<close> is \<open>str(uuid.uuid4())\<close>.
  The new item goes to the end of the dict.
\<close>

definition register_user ::
  "WalletDatabase \<Rightarrow> string \<Rightarrow> string \<Rightarrow> string \<Rightarrow> string \<Rightarrow> (error + user) \<times> WalletDatabase" where
  "register_user db email' pw_hash full_name' uuid =
     (if email' \<in> set (map fst (users db)) then (Inl EmailAlreadyRegistered, db)
      else
        let u = \<lparr>id_user = uuid, email = email', password_hash = pw_hash,
                 full_name = full_name', balance = 0\<rparr>
        in (Inr u, db\<lparr>users := users db @ [(email', u)]\<rparr>))"

subsection \<open>\<open>get_balance\<close>\<close>

fun get_balance_loop :: "user list \<Rightarrow> string \<Rightarrow> decimal" where
  "get_balance_loop [] uid = 0"
| "get_balance_loop (u # us) uid =
     (if id_user u = uid then balance u else get_balance_loop us uid)"

definition get_balance :: "WalletDatabase \<Rightarrow> string \<Rightarrow> decimal" where
  "get_balance db uid = get_balance_loop (map snd (users db)) uid"

subsection \<open>\<open>add_money\<close>\<close>

text \<open>
  A reference to a user dict is the position of its item in \<open>users\<close>. The loop of
  \<open>add_money\<close> stops at the first user whose id matches.
\<close>

fun add_money_loop :: "user list \<Rightarrow> string \<Rightarrow> nat \<Rightarrow> nat option" where
  "add_money_loop [] uid i = None"
| "add_money_loop (u # us) uid i =
     (if id_user u = uid then Some i else add_money_loop us uid (Suc i))"

text \<open>
  \<open>user['balance'] += d\<close> for the user at position \<open>i\<close>; \<open>user['balance'] -= d\<close> adds
  \<open>- d\<close>. In the entry of the log, \<open>PyFloat amt\<close> is \<open>float(amount)\<close> and
  \<open>PyFloat (balance u)\<close> is \<open>float(user['balance'])\<close>.
\<close>

definition add_balance :: "(string \<times> user) list \<Rightarrow> nat \<Rightarrow> decimal \<Rightarrow> (string \<times> user) list" where
  "add_balance us i d =
     us[i := (fst (us ! i),
              (snd (us ! i))\<lparr>balance := dec_round (balance (snd (us ! i)) + d)\<rparr>)]"

definition add_money ::
  "WalletDatabase \<Rightarrow> string \<Rightarrow> decimal \<Rightarrow> string \<Rightarrow> string
     \<Rightarrow> (error + decimal \<times> transaction) \<times> WalletDatabase" where
  "add_money db uid amt uuid now =
     (case add_money_loop (map snd (users db)) uid 0 of
        None \<Rightarrow> (Inl UserNotFound, db)
      | Some i \<Rightarrow>
          let us = add_balance (users db) i amt;
              u = snd (us ! i);
              tx = \<lparr>id_tx = uuid, user_id = uid, type_tx = credit, amount = PyFloat amt,
                    description = ''Added money to wallet'', recipient_email = None,
                    sender_email = None, timestamp = now,
                    balance_after = PyFloat (balance u)\<rparr>
          in (Inr (balance u, tx),
              \<lparr>users = us, transactions = transactions db @ [tx]\<rparr>))"

subsection \<open>\<open>send_money\<close>\<close>

text \<open>
  The loop of \<open>send_money\<close> runs over all users and never stops early: \<open>sender\<close> and
  \<open>recipient\<close> end as the last user that matches.
\<close>

fun send_money_loop ::
  "user list \<Rightarrow> string \<Rightarrow> string \<Rightarrow> nat \<Rightarrow> nat option \<times> nat option \<Rightarrow> nat option \<times> nat option" where
  "send_money_loop [] sid rmail i sr = sr"
| "send_money_loop (u # us) sid rmail i sr =
     send_money_loop us sid rmail (Suc i)
       (if id_user u = sid then Some i else fst sr,
        if email u = rmail then Some i else snd sr)"

text \<open>\<open>description or f'Sent to {recipient_email}'\<close>: \<open>None\<close> and the empty string are falsy.\<close>

definition description_or :: "string option \<Rightarrow> string \<Rightarrow> string" where
  "description_or d dflt = (case d of None \<Rightarrow> dflt | Some s \<Rightarrow> if s = [] then dflt else s)"

definition send_money ::
  "WalletDatabase \<Rightarrow> string \<Rightarrow> string \<Rightarrow> decimal \<Rightarrow> string option
     \<Rightarrow> string \<Rightarrow> string \<Rightarrow> string \<Rightarrow> string
     \<Rightarrow> (error + decimal \<times> transaction) \<times> WalletDatabase" where
  "send_money db sender_id rmail amt descr uuid1 now1 uuid2 now2 =
     (case send_money_loop (map snd (users db)) sender_id rmail 0 (None, None) of
        (None, _) \<Rightarrow> (Inl SenderNotFound, db)
      | (Some s, None) \<Rightarrow> (Inl RecipientNotFound, db)
      | (Some s, Some r) \<Rightarrow>
          if email (snd (users db ! s)) = rmail then (Inl CannotSendToYourself, db)
          else if balance (snd (users db ! s)) < amt then (Inl InsufficientBalance, db)
          else
            let us = add_balance (add_balance (users db) s (- amt)) r amt;
                sender = snd (us ! s);
                recipient = snd (us ! r);
                sender_tx =
                  \<lparr>id_tx = uuid1, user_id = sender_id, type_tx = transfer_out,
                   amount = PyFloat amt,
                   description = description_or descr (''Sent to '' @ rmail),
                   recipient_email = Some rmail, sender_email = None, timestamp = now1,
                   balance_after = PyFloat (balance sender)\<rparr>;
                recipient_tx =
                  \<lparr>id_tx = uuid2, user_id = id_user recipient, type_tx = transfer_in,
                   amount = PyFloat amt,
                   description = ''Received from '' @ email sender,
                   recipient_email = None, sender_email = Some (email sender),
                   timestamp = now2, balance_after = PyFloat (balance recipient)\<rparr>
            in (Inr (balance sender, sender_tx),
                \<lparr>users = us, transactions = transactions db @ [sender_tx, recipient_tx]\<rparr>))"

subsection \<open>\<open>get_transactions\<close>\<close>

text \<open>
  \<open>list.sort(key=..., reverse=True)\<close> is a stable sort: CPython reverses the list, sorts it
  in ascending order with its stable sort, and reverses the result. \<open>sort_key\<close> is a stable
  ascending sort.
\<close>

definition sort_reverse :: "('a \<Rightarrow> 'k::linorder) \<Rightarrow> 'a list \<Rightarrow> 'a list" where
  "sort_reverse key xs = rev (sort_key key (rev xs))"

text \<open>The slice \<open>xs[:limit]\<close>; a negative \<open>limit\<close> counts from the end.\<close>

definition slice_to :: "int \<Rightarrow> 'a list \<Rightarrow> 'a list" where
  "slice_to limit xs =
     (if 0 \<le> limit then take (nat limit) xs else take (length xs - nat (- limit)) xs)"

definition get_transactions :: "WalletDatabase \<Rightarrow> string \<Rightarrow> int \<Rightarrow> transaction list" where
  "get_transactions db uid limit =
     slice_to limit
       (sort_reverse timestamp (filter (\<lambda>tx. user_id tx = uid) (transactions db)))"

text \<open>The call \<open>get_transactions(user_id)\<close>, with the default \<open>limit=10\<close>.\<close>

definition get_transactions_default :: "WalletDatabase \<Rightarrow> string \<Rightarrow> transaction list" where
  "get_transactions_default db uid = get_transactions db uid 10"

subsection \<open>The dialogs that call the database\<close>

text \<open>
  The callbacks \<open>add_money(e)\<close> and \<open>send_money(e)\<close> of the wallet screen are the callers
  of the two methods. They are modelled from the point where the amount field, which is
  not empty, has been parsed: for the float \<open>amount = float(amount_field.value)\<close>,
  \<open>amt\<close> is \<open>Decimal(str(amount))\<close>, the number the database method will make of it; it
  is at most zero when \<open>amount\<close> is. The outcome is \<open>None\<close> when the callback returns at
  once and shows nothing (an empty recipient field), \<open>Some (Inl e)\<close> when it shows an
  error and \<open>Some (Inr r)\<close> when the method succeeded. The \<open>ValueError\<close> raised for
  \<open>amount <= 0\<close> is caught by the callback itself, before any call of the database.
\<close>

definition dialog_add_money ::
  "WalletDatabase \<Rightarrow> string \<Rightarrow> decimal \<Rightarrow> string \<Rightarrow> string
     \<Rightarrow> (error + decimal \<times> transaction) option \<times> WalletDatabase" where
  "dialog_add_money db current_user_id amt uuid now =
     (if amt \<le> 0 then (Some (Inl AmountMustBePositive), db)
      else case add_money db current_user_id amt uuid now of (r, db') \<Rightarrow> (Some r, db'))"

definition dialog_send_money ::
  "WalletDatabase \<Rightarrow> string \<Rightarrow> string \<Rightarrow> decimal \<Rightarrow> string
     \<Rightarrow> string \<Rightarrow> string \<Rightarrow> string \<Rightarrow> string
     \<Rightarrow> (error + decimal \<times> transaction) option \<times> WalletDatabase" where
  "dialog_send_money db current_user_id recipient amt descr uuid1 now1 uuid2 now2 =
     (if recipient = [] then (None, db)
      else if amt \<le> 0 then (Some (Inl AmountMustBePositive), db)
      else
        case send_money db current_user_id recipient amt
               (Some (if descr = [] then ''Money transfer'' else descr)) uuid1 now1 uuid2 now2 of
          (r, db') \<Rightarrow> (Some r, db'))"

text \<open>The sign the wallet screen gives an entry: \<open>+\<close> for \<open>credit\<close> and \<open>transfer_in\<close>.\<close>

definition is_credit :: "transaction \<Rightarrow> bool" where
  "is_credit tx = (type_tx tx = credit \<or> type_tx tx = transfer_in)"

text \<open>
  The amount of an entry with that sign. The amount is the value of the float the entry
  holds.
\<close>

definition signed_amount :: "transaction \<Rightarrow> rat" where
  "signed_amount tx =
     (if is_credit tx then float_value (amount tx) else - float_value (amount tx))"

subsection \<open>Sequences of calls\<close>

text \<open>
  A call of one of the three mutating methods, with its arguments and the values it draws
  from the environment. \<open>run\<close> makes the calls one after the other, a failed call leaving
  the database as it was.
\<close>

datatype op =
    Register string string string string
  | AddMoney string decimal string string
  | SendMoney string string decimal "string option" string string string string

fun apply_op :: "WalletDatabase \<Rightarrow> op \<Rightarrow> WalletDatabase" where
  "apply_op db (Register email' pw_hash full_name' uuid) =
     snd (register_user db email' pw_hash full_name' uuid)"
| "apply_op db (AddMoney uid amt uuid now) = snd (add_money db uid amt uuid now)"
| "apply_op db (SendMoney sid rmail amt descr uuid1 now1 uuid2 now2) =
     snd (send_money db sid rmail amt descr uuid1 now1 uuid2 now2)"

fun run :: "WalletDatabase \<Rightarrow> op list \<Rightarrow> WalletDatabase" where
  "run db [] = db"
| "run db (x # xs) = run (apply_op db x) xs"

fun op_amount :: "op \<Rightarrow> decimal option" where
  "op_amount (Register email' pw_hash full_name' uuid) = None"
| "op_amount (AddMoney uid amt uuid now) = Some amt"
| "op_amount (SendMoney sid rmail amt descr uuid1 now1 uuid2 now2) = Some amt"

text \<open>The amounts of a sequence of calls are positive, as the dialogs make sure.\<close>

definition positive_amounts :: "op list \<Rightarrow> bool" where
  "positive_amounts ops = list_all (\<lambda>x. case op_amount x of None \<Rightarrow> True | Some a \<Rightarrow> 0 < a) ops"

text \<open>The amounts of a sequence of calls all have the property \<open>P\<close>.\<close>

definition amounts_all :: "(decimal \<Rightarrow> bool) \<Rightarrow> op list \<Rightarrow> bool" where
  "amounts_all P ops = list_all (\<lambda>x. case op_amount x of None \<Rightarrow> True | Some a \<Rightarrow> P a) ops"



text \<open>
  \<open>uuid4\<close> is taken never to return an id that is in use: every \<open>register_user\<close> of the
  sequence gets an id that no user has at that moment.
\<close>

fun fresh_ids :: "WalletDatabase \<Rightarrow> op list \<Rightarrow> bool" where
  "fresh_ids db [] = True"
| "fresh_ids db (x # xs) =
     ((case x of
         Register email' pw_hash full_name' uuid \<Rightarrow>
           uuid \<notin> set (map (id_user \<circ> snd) (users db))
       | _ \<Rightarrow> True)
      \<and> fresh_ids (apply_op db x) xs)"

text \<open>
  A call is exact when the context rounds none of the balances it writes; a call that is
  rejected writes none. The user \<open>add_money\<close> updates is the first with the id, the sender
  and the recipient of \<open>send_money\<close> are the last with the id and with the address.
\<close>

fun exact_call :: "WalletDatabase \<Rightarrow> op \<Rightarrow> bool" where
  "exact_call db (Register email' pw_hash full_name' uuid) = True"
| "exact_call db (AddMoney uid amt uuid now) =
     (case find (\<lambda>u. id_user u = uid) (map snd (users db)) of
        None \<Rightarrow> True
      | Some u \<Rightarrow> unrounded (balance u + amt))"
| "exact_call db (SendMoney sid rmail amt descr uuid1 now1 uuid2 now2) =
     (case (find (\<lambda>u. id_user u = sid) (rev (map snd (users db))),
            find (\<lambda>u. email u = rmail) (rev (map snd (users db)))) of
        (Some sender, Some recipient) \<Rightarrow>
          email sender = rmail \<or> balance sender < amt
          \<or> (unrounded (balance sender - amt) \<and> unrounded (balance recipient + amt))
      | _ \<Rightarrow> True)"

fun exact_run :: "WalletDatabase \<Rightarrow> op list \<Rightarrow> bool" where
  "exact_run db [] = True"
| "exact_run db (x # xs) = (exact_call db x \<and> exact_run (apply_op db x) xs)"


text \<open>
  Replaying the log for one account, as the specification words it: the account's entries
  in time stamp order, credits added and debits subtracted, in exact arithmetic.
\<close>

definition replay_log :: "WalletDatabase \<Rightarrow> string \<Rightarrow> rat" where
  "replay_log db uid =
     sum_list (map signed_amount
       (sort_key timestamp (filter (\<lambda>tx. user_id tx = uid) (transactions db))))"

text \<open>
  The invariant behind the reconstruction of a balance from the log: user ids are distinct,
  every entry of the log belongs to a user, the users \<open>__init__\<close> made are still there, and
  every balance is the balance \<open>__init__\<close> gave the account (zero for an account
  registered later) plus the replay of its entries.
\<close>

definition ledger_consistent :: "WalletDatabase \<Rightarrow> bool" where
  "ledger_consistent db =
     (distinct (map (id_user \<circ> snd) (users db))
      \<and> set (map user_id (transactions db)) \<subseteq> set (map (id_user \<circ> snd) (users db))
      \<and> set (map (id_user \<circ> snd) (users WalletDatabase_init))
            \<subseteq> set (map (id_user \<circ> snd) (users db))
      \<and> list_all
            (\<lambda>u. balance u =
                   get_balance WalletDatabase_init (id_user u) + replay_log db (id_user u))
            (map snd (users db)))"

section \<open>Properties\<close>

subsection \<open>The decimal context\<close>

declare num_digits.simps [simp del]

lemma pow10_pos [simp]: "0 < pow10 e"
  by (simp add: pow10_def)

lemma pow10_neq0 [simp]: "pow10 e \<noteq> 0"
  by (simp add: pow10_def)

lemma pow10_add: "pow10 (a + b) = pow10 a * pow10 b"
proof -
  have "pow10 e = 10 powi e" for e
    by (simp add: pow10_def power_int_def inverse_eq_divide power_one_over)
  then show ?thesis by (simp add: power_int_add)
qed

lemma pow10_nat: "pow10 (int n) = 10 ^ n"
  by (simp add: pow10_def)

lemma pow10_mono: "a \<le> b \<Longrightarrow> pow10 a \<le> pow10 b"
proof -
  assume "a \<le> b"
  then obtain n where b: "b = a + int n" by (metis zle_iff_zadd)
  have "(1::rat) \<le> 10 ^ n" by simp
  then have "pow10 a * 1 \<le> pow10 a * 10 ^ n"
    by (intro mult_left_mono) (simp_all add: less_imp_le)
  then show ?thesis by (simp add: b pow10_add pow10_nat)
qed

lemma num_digits_pos [simp]: "0 < num_digits n"
  by (simp add: num_digits.simps [of n])

lemma num_digits_lower: "0 < n \<Longrightarrow> 10 ^ (num_digits n - 1) \<le> n"
proof (induction n rule: num_digits.induct)
  case (1 n)
  show ?case
  proof (cases "n < 10")
    case True
    with "1.prems" show ?thesis by (simp add: num_digits.simps [of n])
  next
    case False
    then have "0 < n div 10" by simp
    with "1.IH" False have "10 ^ (num_digits (n div 10) - 1) \<le> n div 10" by simp
    then have "10 * 10 ^ (num_digits (n div 10) - 1) \<le> 10 * (n div 10)" by simp
    also have "\<dots> \<le> n" by simp
    finally show ?thesis using False num_digits_pos [of "n div 10"]
      by (cases "num_digits (n div 10)") (simp_all add: num_digits.simps [of n])
  qed
qed

lemma num_digits_upper: "n < 10 ^ num_digits n"
proof (induction n rule: num_digits.induct)
  case (1 n)
  show ?case
  proof (cases "n < 10")
    case True
    then show ?thesis by (simp add: num_digits.simps [of n])
  next
    case False
    with "1.IH" have "n div 10 < 10 ^ num_digits (n div 10)" by simp
    then have "n < 10 * 10 ^ num_digits (n div 10)" by simp
    then show ?thesis using False by (simp add: num_digits.simps [of n])
  qed
qed

lemma ilog10_bounds:
  assumes "0 < q"
  shows "pow10 (ilog10 q) \<le> q \<and> q < pow10 (ilog10 q + 1)"
proof -
  obtain n d where nd: "quotient_of q = (n, d)" by (cases "quotient_of q")
  then have d: "0 < d" and q: "q = of_int n / of_int d"
    by (simp_all add: quotient_of_denom_pos quotient_of_div)
  from assms q d have n: "0 < n" by (simp add: zero_less_divide_iff)
  let ?k = "int (num_digits n) - int (num_digits d)"
  have ln: "(10::rat) ^ (num_digits n - 1) \<le> of_int n"
  proof -
    have "(of_int (10 ^ (num_digits n - 1)) :: rat) \<le> of_int n"
      using num_digits_lower [OF n] by (simp only: of_int_le_iff)
    then show ?thesis by simp
  qed
  have un: "of_int n < (10::rat) ^ num_digits n"
  proof -
    have "(of_int n :: rat) < of_int (10 ^ num_digits n)"
      using num_digits_upper [of n] by (simp only: of_int_less_iff)
    then show ?thesis by simp
  qed
  have ld: "(10::rat) ^ (num_digits d - 1) \<le> of_int d"
  proof -
    have "(of_int (10 ^ (num_digits d - 1)) :: rat) \<le> of_int d"
      using num_digits_lower [OF d] by (simp only: of_int_le_iff)
    then show ?thesis by simp
  qed
  have ud: "of_int d < (10::rat) ^ num_digits d"
  proof -
    have "(of_int d :: rat) < of_int (10 ^ num_digits d)"
      using num_digits_upper [of d] by (simp only: of_int_less_iff)
    then show ?thesis by simp
  qed
  have dq: "0 < (of_int d :: rat)" using d by simp
  have low: "pow10 (?k - 1) \<le> q"
  proof -
    have k1: "?k - 1 = int (num_digits n - 1) - int (num_digits d)"
      using num_digits_pos [of n] by (cases "num_digits n") simp_all
    have "pow10 (?k - 1) * pow10 (int (num_digits d)) = pow10 (int (num_digits n - 1))"
      unfolding pow10_add [symmetric] k1 by simp
    then have "pow10 (?k - 1) * 10 ^ num_digits d = 10 ^ (num_digits n - 1)"
      by (simp add: pow10_nat)
    also note ln
    finally have "pow10 (?k - 1) * 10 ^ num_digits d \<le> of_int n" .
    moreover have "pow10 (?k - 1) * of_int d \<le> pow10 (?k - 1) * 10 ^ num_digits d"
      using ud by (intro mult_left_mono) (simp_all add: less_imp_le)
    ultimately have "pow10 (?k - 1) * of_int d \<le> of_int n" by (rule order_trans [rotated])
    then show ?thesis using dq by (simp add: q pos_le_divide_eq)
  qed
  have up: "q < pow10 (?k + 1)"
  proof -
    have k1: "?k + 1 = int (num_digits n) - int (num_digits d - 1)"
      using num_digits_pos [of d] by (cases "num_digits d") simp_all
    have "pow10 (?k + 1) * pow10 (int (num_digits d - 1)) = pow10 (int (num_digits n))"
      unfolding pow10_add [symmetric] k1 by simp
    then have e: "pow10 (?k + 1) * 10 ^ (num_digits d - 1) = 10 ^ num_digits n"
      by (simp add: pow10_nat)
    have "of_int n < pow10 (?k + 1) * 10 ^ (num_digits d - 1)" using un unfolding e .
    also have "\<dots> \<le> pow10 (?k + 1) * of_int d"
      using ld by (intro mult_left_mono) (simp_all add: less_imp_le)
    finally show ?thesis using dq by (simp add: q pos_divide_less_eq)
  qed
  show ?thesis
  proof (cases "pow10 ?k \<le> q")
    case True
    then have "ilog10 q = ?k" by (simp add: ilog10_def nd Let_def)
    with True up show ?thesis by simp
  next
    case False
    then have "ilog10 q = ?k - 1" by (simp add: ilog10_def nd Let_def)
    with False low show ?thesis by simp
  qed
qed

lemma ilog10_lower: "0 < q \<Longrightarrow> pow10 (ilog10 q) \<le> q"
  by (simp add: ilog10_bounds)

lemma pow10_less_imp: "pow10 a < pow10 b \<Longrightarrow> a < b"
  using pow10_mono [of b a] by (cases "a < b") auto

lemma ilog10_eq:
  assumes "pow10 L \<le> q" "q < pow10 (L + 1)"
  shows "ilog10 q = L"
proof -
  have q: "0 < q" using pow10_pos [of L] assms(1) by (rule less_le_trans)
  from ilog10_bounds [OF q] have b: "pow10 (ilog10 q) \<le> q" "q < pow10 (ilog10 q + 1)"
    by simp_all
  from assms(1) b(2) have "pow10 L < pow10 (ilog10 q + 1)" by simp
  then have "L < ilog10 q + 1" by (rule pow10_less_imp)
  moreover from b(1) assms(2) have "pow10 (ilog10 q) < pow10 (L + 1)" by simp
  then have "ilog10 q < L + 1" by (rule pow10_less_imp)
  ultimately show ?thesis by simp
qed

lemma round_half_even_of_int [simp]: "round_half_even (of_int z) = z"
  by (simp add: round_half_even_def)

lemma round_half_even_nonneg: "0 \<le> x \<Longrightarrow> 0 \<le> round_half_even x"
  by (auto simp: round_half_even_def Let_def)

lemma dec_round_nonneg: "0 \<le> q \<Longrightarrow> 0 \<le> dec_round q"
  by (auto simp: dec_round_def Let_def less_imp_le intro!: mult_nonneg_nonneg round_half_even_nonneg)

lemma dec_round_minus: "dec_round (- q) = - dec_round q"
  by (simp add: dec_round_def Let_def)

lemma dec_round_exact_pos:
  assumes m: "0 < m" "m < 10 ^ 28"
  shows "dec_round (of_nat m * pow10 e) = of_nat m * pow10 e"
proof -
  let ?q = "of_nat m * pow10 e :: rat"
  have q: "0 < ?q" using m by simp
  let ?L = "ilog10 ?q"
  have "pow10 ?L \<le> ?q" using q by (rule ilog10_lower)
  also have "?q < 10 ^ 28 * pow10 e"
  proof -
    have "(of_nat m :: rat) < of_nat (10 ^ 28)" using m(2) by (simp only: of_nat_less_iff)
    then show ?thesis by simp
  qed
  also have "\<dots> = pow10 (28 + e)"
  proof -
    have "pow10 28 = 10 ^ 28" by (simp add: pow10_def)
    then show ?thesis by (simp add: pow10_add)
  qed
  finally have "pow10 ?L < pow10 (28 + e)" .
  then have "?L < 28 + e" by (rule pow10_less_imp)
  then have "0 \<le> e - (?L - 27)" by simp
  then obtain n where n: "e - (?L - 27) = int n" by (rule nonneg_int_cases)
  have "pow10 e = pow10 (?L - 27) * pow10 (int n)"
    unfolding pow10_add [symmetric] n [symmetric] by simp
  then have "pow10 e = pow10 (?L - 27) * 10 ^ n"
    by (simp add: pow10_nat)
  then have "pow10 e / pow10 (?L - 27) = pow10 (?L - 27) * 10 ^ n / pow10 (?L - 27)"
    by (rule arg_cong)
  then have "pow10 e / pow10 (?L - 27) = 10 ^ n"
    by simp
  then have "of_nat m * (pow10 e / pow10 (?L - 27)) = (of_nat m * 10 ^ n :: rat)"
    by (rule arg_cong)
  then have div: "?q / pow10 (?L - 27) = of_int (int (m * 10 ^ n))"
    by simp
  have ab: "\<bar>?q\<bar> = ?q" using q by simp
  have "dec_round ?q = of_int (round_half_even (?q / pow10 (?L - 27))) * pow10 (?L - 27)"
    using q m(1) unfolding dec_round_def Let_def ab by simp
  also have "\<dots> = of_int (int (m * 10 ^ n)) * pow10 (?L - 27)"
    unfolding div round_half_even_of_int ..
  also have "\<dots> = ?q / pow10 (?L - 27) * pow10 (?L - 27)" unfolding div ..
  also have "\<dots> = ?q" by simp
  finally show ?thesis .
qed

lemma dec_round_0 [simp]: "dec_round 0 = 0"
  by (simp add: dec_round_def)

lemma dec_round_numeral [simp]:
  "numeral k < (10::nat) ^ 28 \<Longrightarrow> dec_round (numeral k) = numeral k"
  using dec_round_exact_pos [of "numeral k" 0] by (simp add: pow10_def)

lemma dec_round_1 [simp]: "dec_round 1 = 1"
  using dec_round_exact_pos [of 1 0] by (simp add: pow10_def)

lemma dec_round_neg_numeral [simp]:
  "numeral k < (10::nat) ^ 28 \<Longrightarrow> dec_round (- numeral k) = - numeral k"
  by (simp add: dec_round_minus)

subsection \<open>Python floats\<close>

declare num_bits.simps [simp del]

lemma pow2_pos [simp]: "0 < pow2 e"
  by (simp add: pow2_def)

lemma pow2_neq0 [simp]: "pow2 e \<noteq> 0"
  by (simp add: pow2_def)

lemma pow2_add: "pow2 (a + b) = pow2 a * pow2 b"
proof -
  have "pow2 e = 2 powi e" for e
    by (simp add: pow2_def power_int_def inverse_eq_divide power_one_over)
  then show ?thesis by (simp add: power_int_add)
qed

lemma pow2_nat: "pow2 (int n) = 2 ^ n"
  by (simp add: pow2_def)

lemma pow2_mono: "a \<le> b \<Longrightarrow> pow2 a \<le> pow2 b"
proof -
  assume "a \<le> b"
  then obtain n where b: "b = a + int n" by (metis zle_iff_zadd)
  have "(1::rat) \<le> 2 ^ n" by simp
  then have "pow2 a * 1 \<le> pow2 a * 2 ^ n"
    by (intro mult_left_mono) (simp_all add: less_imp_le)
  then show ?thesis by (simp add: b pow2_add pow2_nat)
qed

lemma num_bits_pos [simp]: "0 < num_bits n"
  by (simp add: num_bits.simps [of n])

lemma num_bits_lower: "0 < n \<Longrightarrow> 2 ^ (num_bits n - 1) \<le> n"
proof (induction n rule: num_bits.induct)
  case (1 n)
  show ?case
  proof (cases "n < 2")
    case True
    with "1.prems" show ?thesis by (simp add: num_bits.simps [of n])
  next
    case False
    then have "0 < n div 2" by simp
    with "1.IH" False have "2 ^ (num_bits (n div 2) - 1) \<le> n div 2" by simp
    then have "2 * 2 ^ (num_bits (n div 2) - 1) \<le> 2 * (n div 2)" by simp
    also have "\<dots> \<le> n" by simp
    finally show ?thesis using False num_bits_pos [of "n div 2"]
      by (cases "num_bits (n div 2)") (simp_all add: num_bits.simps [of n])
  qed
qed

lemma num_bits_upper: "n < 2 ^ num_bits n"
proof (induction n rule: num_bits.induct)
  case (1 n)
  show ?case
  proof (cases "n < 2")
    case True
    then show ?thesis by (simp add: num_bits.simps [of n])
  next
    case False
    with "1.IH" have "n div 2 < 2 ^ num_bits (n div 2)" by simp
    then have "n < 2 * 2 ^ num_bits (n div 2)" by simp
    then show ?thesis using False by (simp add: num_bits.simps [of n])
  qed
qed

lemma ilog2_bounds:
  assumes "0 < q"
  shows "pow2 (ilog2 q) \<le> q \<and> q < pow2 (ilog2 q + 1)"
proof -
  obtain n d where nd: "quotient_of q = (n, d)" by (cases "quotient_of q")
  then have d: "0 < d" and q: "q = of_int n / of_int d"
    by (simp_all add: quotient_of_denom_pos quotient_of_div)
  from assms q d have n: "0 < n" by (simp add: zero_less_divide_iff)
  let ?k = "int (num_bits n) - int (num_bits d)"
  have ln: "(2::rat) ^ (num_bits n - 1) \<le> of_int n"
  proof -
    have "(of_int (2 ^ (num_bits n - 1)) :: rat) \<le> of_int n"
      using num_bits_lower [OF n] by (simp only: of_int_le_iff)
    then show ?thesis by simp
  qed
  have un: "of_int n < (2::rat) ^ num_bits n"
  proof -
    have "(of_int n :: rat) < of_int (2 ^ num_bits n)"
      using num_bits_upper [of n] by (simp only: of_int_less_iff)
    then show ?thesis by simp
  qed
  have ld: "(2::rat) ^ (num_bits d - 1) \<le> of_int d"
  proof -
    have "(of_int (2 ^ (num_bits d - 1)) :: rat) \<le> of_int d"
      using num_bits_lower [OF d] by (simp only: of_int_le_iff)
    then show ?thesis by simp
  qed
  have ud: "of_int d < (2::rat) ^ num_bits d"
  proof -
    have "(of_int d :: rat) < of_int (2 ^ num_bits d)"
      using num_bits_upper [of d] by (simp only: of_int_less_iff)
    then show ?thesis by simp
  qed
  have dq: "0 < (of_int d :: rat)" using d by simp
  have low: "pow2 (?k - 1) \<le> q"
  proof -
    have k1: "?k - 1 = int (num_bits n - 1) - int (num_bits d)"
      using num_bits_pos [of n] by (cases "num_bits n") simp_all
    have "pow2 (?k - 1) * pow2 (int (num_bits d)) = pow2 (int (num_bits n - 1))"
      unfolding pow2_add [symmetric] k1 by simp
    then have "pow2 (?k - 1) * 2 ^ num_bits d = 2 ^ (num_bits n - 1)"
      by (simp add: pow2_nat)
    also note ln
    finally have "pow2 (?k - 1) * 2 ^ num_bits d \<le> of_int n" .
    moreover have "pow2 (?k - 1) * of_int d \<le> pow2 (?k - 1) * 2 ^ num_bits d"
      using ud by (intro mult_left_mono) (simp_all add: less_imp_le)
    ultimately have "pow2 (?k - 1) * of_int d \<le> of_int n" by (rule order_trans [rotated])
    then show ?thesis using dq by (simp add: q pos_le_divide_eq)
  qed
  have up: "q < pow2 (?k + 1)"
  proof -
    have k1: "?k + 1 = int (num_bits n) - int (num_bits d - 1)"
      using num_bits_pos [of d] by (cases "num_bits d") simp_all
    have "pow2 (?k + 1) * pow2 (int (num_bits d - 1)) = pow2 (int (num_bits n))"
      unfolding pow2_add [symmetric] k1 by simp
    then have e: "pow2 (?k + 1) * 2 ^ (num_bits d - 1) = 2 ^ num_bits n"
      by (simp add: pow2_nat)
    have "of_int n < pow2 (?k + 1) * 2 ^ (num_bits d - 1)" using un unfolding e .
    also have "\<dots> \<le> pow2 (?k + 1) * of_int d"
      using ld by (intro mult_left_mono) (simp_all add: less_imp_le)
    finally show ?thesis using dq by (simp add: q pos_divide_less_eq)
  qed
  show ?thesis
  proof (cases "pow2 ?k \<le> q")
    case True
    then have "ilog2 q = ?k" by (simp add: ilog2_def nd Let_def)
    with True up show ?thesis by simp
  next
    case False
    then have "ilog2 q = ?k - 1" by (simp add: ilog2_def nd Let_def)
    with False low show ?thesis by simp
  qed
qed

lemma round_half_even_ge1: "1 \<le> x \<Longrightarrow> 1 \<le> round_half_even x"
proof -
  assume "1 \<le> x"
  then have "1 \<le> \<lfloor>x\<rfloor>" by (simp add: le_floor_iff)
  then show ?thesis by (auto simp: round_half_even_def Let_def)
qed

lemma float_round_pos:
  assumes "min_float \<le> q"
  shows "0 < float_round q"
proof -
  have q: "0 < q" using pow2_pos [of "- 1074"] assms unfolding min_float_def by (rule less_le_trans)
  let ?e = "max (ilog2 q - 52) (- 1074)"
  have "pow2 ?e \<le> q"
  proof (cases "- 1074 \<le> ilog2 q - 52")
    case True
    then have "pow2 ?e \<le> pow2 (ilog2 q)" by (intro pow2_mono) simp
    also have "\<dots> \<le> q" using ilog2_bounds [OF q] by simp
    finally show ?thesis .
  next
    case False
    then have "?e = - 1074" by simp
    with assms show ?thesis by (simp add: min_float_def)
  qed
  then have "1 \<le> q / pow2 ?e" by (simp add: pos_le_divide_eq)
  then have "1 \<le> round_half_even (q / pow2 ?e)" by (rule round_half_even_ge1)
  then have "0 < (of_int (round_half_even (q / pow2 ?e)) :: rat)" by simp
  then have "0 < of_int (round_half_even (q / pow2 ?e)) * pow2 ?e"
    by (intro mult_pos_pos) simp_all
  moreover have ab: "\<bar>q\<bar> = q" using q by simp
  ultimately show ?thesis using q unfolding float_round_def Let_def ab by simp
qed

lemma amounts_all_Nil [simp]: "amounts_all P []"
  by (simp add: amounts_all_def)

lemma amounts_all_Cons [simp]:
  "amounts_all P (x # xs) =
     ((case op_amount x of None \<Rightarrow> True | Some a \<Rightarrow> P a) \<and> amounts_all P xs)"
  by (simp add: amounts_all_def)

lemma amounts_allD:
  "amounts_all P ops \<Longrightarrow> x \<in> set ops \<Longrightarrow> op_amount x = Some a \<Longrightarrow> P a"
  by (auto simp: amounts_all_def list_all_iff)

subsection \<open>The loops\<close>

lemma add_money_loop_None: "(add_money_loop us uid i = None) = (uid \<notin> set (map id_user us))"
  by (induction us arbitrary: i) auto

lemma add_money_loop_Some:
  "add_money_loop us uid i = Some j \<Longrightarrow>
     i \<le> j \<and> j - i < length us \<and> id_user (us ! (j - i)) = uid
     \<and> (\<forall>k < j - i. id_user (us ! k) \<noteq> uid)
     \<and> find (\<lambda>u. id_user u = uid) us = Some (us ! (j - i))"
proof (induction us arbitrary: i)
  case Nil
  then show ?case by simp
next
  case (Cons u us)
  show ?case
  proof (cases "id_user u = uid")
    case True
    with Cons.prems show ?thesis by simp
  next
    case False
    with Cons.prems have "add_money_loop us uid (Suc i) = Some j" by simp
    from Cons.IH [OF this] have ih: "Suc i \<le> j" "j - Suc i < length us"
      "id_user (us ! (j - Suc i)) = uid" "\<forall>k < j - Suc i. id_user (us ! k) \<noteq> uid"
      "find (\<lambda>u. id_user u = uid) us = Some (us ! (j - Suc i))" by auto
    from ih(1) have eq: "j - i = Suc (j - Suc i)" by simp
    show ?thesis using ih False unfolding eq by (auto simp: less_Suc_eq_0_disj)
  qed
qed

lemma add_money_loop_0:
  "add_money_loop us uid 0 = Some j \<Longrightarrow>
     j < length us \<and> id_user (us ! j) = uid \<and> (\<forall>k < j. id_user (us ! k) \<noteq> uid)
     \<and> find (\<lambda>u. id_user u = uid) us = Some (us ! j)"
  using add_money_loop_Some [of us uid 0 j] by simp

lemma send_money_loop_snoc:
  "send_money_loop (us @ [u]) sid rmail i sr =
     (if id_user u = sid then Some (i + length us) else fst (send_money_loop us sid rmail i sr),
      if email u = rmail then Some (i + length us) else snd (send_money_loop us sid rmail i sr))"
  by (induction us arbitrary: i sr) auto

lemma send_money_loop_sender_None:
  "(fst (send_money_loop us sid rmail 0 (None, None)) = None) = (sid \<notin> set (map id_user us))"
  by (induction us rule: rev_induct) (auto simp: send_money_loop_snoc)

lemma send_money_loop_recipient_None:
  "(snd (send_money_loop us sid rmail 0 (None, None)) = None) = (rmail \<notin> set (map email us))"
  by (induction us rule: rev_induct) (auto simp: send_money_loop_snoc)

lemma send_money_loop_sender_Some:
  "fst (send_money_loop us sid rmail 0 (None, None)) = Some s \<Longrightarrow>
     s < length us \<and> id_user (us ! s) = sid
     \<and> find (\<lambda>u. id_user u = sid) (rev us) = Some (us ! s)"
  by (induction us arbitrary: s rule: rev_induct)
     (auto simp: send_money_loop_snoc nth_append split: if_splits)

lemma send_money_loop_recipient_Some:
  "snd (send_money_loop us sid rmail 0 (None, None)) = Some r \<Longrightarrow>
     r < length us \<and> email (us ! r) = rmail
     \<and> find (\<lambda>u. email u = rmail) (rev us) = Some (us ! r)"
  by (induction us arbitrary: r rule: rev_induct)
     (auto simp: send_money_loop_snoc nth_append split: if_splits)

lemma get_balance_loop_absent:
  "uid \<notin> set (map id_user us) \<Longrightarrow> get_balance_loop us uid = 0"
  by (induction us) auto

lemma get_balance_loop_append:
  "get_balance_loop (us @ vs) uid =
     (if uid \<in> set (map id_user us) then get_balance_loop us uid else get_balance_loop vs uid)"
  by (induction us) auto

lemma find_SomeD: "find P xs = Some x \<Longrightarrow> x \<in> set xs \<and> P x"
  by (induction xs) (auto split: if_splits)

lemma length_add_balance [simp]: "length (add_balance us i d) = length us"
  by (simp add: add_balance_def)

lemma nth_add_balance:
  "j < length us \<Longrightarrow>
     add_balance us i d ! j =
       (if j = i
        then (fst (us ! i), (snd (us ! i))\<lparr>balance := dec_round (balance (snd (us ! i)) + d)\<rparr>)
        else us ! j)"
  by (cases "i < length us") (auto simp: add_balance_def)

lemma map_fst_add_balance [simp]: "map fst (add_balance us i d) = map fst us"
  by (rule nth_equalityI) (simp_all add: nth_add_balance)

lemma map_id_add_balance [simp]:
  "map (id_user \<circ> snd) (add_balance us i d) = map (id_user \<circ> snd) us"
  by (rule nth_equalityI) (simp_all add: nth_add_balance)

lemma map_email_add_balance [simp]:
  "map (email \<circ> snd) (add_balance us i d) = map (email \<circ> snd) us"
  by (rule nth_equalityI) (simp_all add: nth_add_balance)



subsection \<open>What a call does to the database\<close>

lemma register_user_users:
  "users (snd (register_user db e p n i)) =
     (if e \<in> set (map fst (users db)) then users db
      else users db @ [(e, \<lparr>id_user = i, email = e, password_hash = p, full_name = n, balance = 0\<rparr>)])"
  by (simp add: register_user_def Let_def)

lemma register_user_transactions [simp]:
  "transactions (snd (register_user db e p n i)) = transactions db"
  by (simp add: register_user_def Let_def)

lemma add_money_not_found:
  "uid \<notin> set (map (id_user \<circ> snd) (users db)) \<Longrightarrow>
     add_money db uid amt uuid now = (Inl UserNotFound, db)"
  using add_money_loop_None [of "map snd (users db)" uid 0]
  by (simp add: add_money_def)

lemma add_money_found:
  assumes "uid \<in> set (map (id_user \<circ> snd) (users db))"
  obtains (found) i where "i < length (users db)" "id_user (snd (users db ! i)) = uid"
    "\<forall>k < i. id_user (snd (users db ! k)) \<noteq> uid"
    "add_money db uid amt uuid now =
       (Inr (dec_round (balance (snd (users db ! i)) + amt),
             \<lparr>id_tx = uuid, user_id = uid, type_tx = credit, amount = PyFloat amt,
              description = ''Added money to wallet'', recipient_email = None,
              sender_email = None, timestamp = now,
              balance_after = PyFloat (dec_round (balance (snd (users db ! i)) + amt))\<rparr>),
        \<lparr>users = add_balance (users db) i amt,
         transactions = transactions db @
           [\<lparr>id_tx = uuid, user_id = uid, type_tx = credit, amount = PyFloat amt,
             description = ''Added money to wallet'', recipient_email = None,
             sender_email = None, timestamp = now,
             balance_after = PyFloat (dec_round (balance (snd (users db ! i)) + amt))\<rparr>]\<rparr>)"
    "find (\<lambda>u. id_user u = uid) (map snd (users db)) = Some (snd (users db ! i))"
proof -
  from assms obtain i where i: "add_money_loop (map snd (users db)) uid 0 = Some i"
    using add_money_loop_None [of "map snd (users db)" uid 0] by auto
  from add_money_loop_0 [OF i] have p: "i < length (users db)"
    "id_user (snd (users db ! i)) = uid" "\<forall>k < i. id_user (snd (users db ! k)) \<noteq> uid"
    and f: "find (\<lambda>u. id_user u = uid) (map snd (users db)) = Some (snd (users db ! i))"
    by auto
  show thesis
    by (rule that [OF p _ f]) (simp add: add_money_def i Let_def nth_add_balance p(1))
qed

lemma send_money_no_sender:
  assumes "sid \<notin> set (map (id_user \<circ> snd) (users db))"
  shows "send_money db sid rmail amt descr uuid1 now1 uuid2 now2 = (Inl SenderNotFound, db)"
proof -
  let ?L = "send_money_loop (map snd (users db)) sid rmail 0 (None, None)"
  have "fst ?L = None"
    using assms send_money_loop_sender_None [of "map snd (users db)" sid rmail] by simp
  then obtain b where "?L = (None, b)" by (cases ?L) auto
  then show ?thesis by (simp add: send_money_def)
qed

lemma send_money_no_recipient:
  assumes "sid \<in> set (map (id_user \<circ> snd) (users db))"
    and "rmail \<notin> set (map (email \<circ> snd) (users db))"
  shows "send_money db sid rmail amt descr uuid1 now1 uuid2 now2 = (Inl RecipientNotFound, db)"
proof -
  let ?L = "send_money_loop (map snd (users db)) sid rmail 0 (None, None)"
  from assms(1) obtain s where "fst ?L = Some s"
    using send_money_loop_sender_None [of "map snd (users db)" sid rmail] by auto
  moreover have "snd ?L = None"
    using assms(2) send_money_loop_recipient_None [of "map snd (users db)" sid rmail] by simp
  ultimately have "?L = (Some s, None)" by (simp add: prod_eq_iff)
  then show ?thesis by (simp add: send_money_def)
qed

lemma send_money_found:
  assumes "sid \<in> set (map (id_user \<circ> snd) (users db))"
    and "rmail \<in> set (map (email \<circ> snd) (users db))"
  obtains (found) s r where "s < length (users db)" "r < length (users db)"
    "id_user (snd (users db ! s)) = sid" "email (snd (users db ! r)) = rmail"
    "find (\<lambda>u. id_user u = sid) (rev (map snd (users db))) = Some (snd (users db ! s))"
    "find (\<lambda>u. email u = rmail) (rev (map snd (users db))) = Some (snd (users db ! r))"
    "send_money db sid rmail amt descr uuid1 now1 uuid2 now2 =
       (if email (snd (users db ! s)) = rmail then (Inl CannotSendToYourself, db)
        else if balance (snd (users db ! s)) < amt then (Inl InsufficientBalance, db)
        else
          (Inr (dec_round (balance (snd (users db ! s)) - amt),
             \<lparr>id_tx = uuid1, user_id = sid, type_tx = transfer_out, amount = PyFloat amt,
              description = description_or descr (''Sent to '' @ rmail),
              recipient_email = Some rmail, sender_email = None, timestamp = now1,
              balance_after = PyFloat (dec_round (balance (snd (users db ! s)) - amt))\<rparr>),
           \<lparr>users = add_balance (add_balance (users db) s (- amt)) r amt,
            transactions = transactions db @
              [\<lparr>id_tx = uuid1, user_id = sid, type_tx = transfer_out, amount = PyFloat amt,
                description = description_or descr (''Sent to '' @ rmail),
                recipient_email = Some rmail, sender_email = None, timestamp = now1,
                balance_after = PyFloat (dec_round (balance (snd (users db ! s)) - amt))\<rparr>,
               \<lparr>id_tx = uuid2, user_id = id_user (snd (users db ! r)), type_tx = transfer_in,
                amount = PyFloat amt,
                description = ''Received from '' @ email (snd (users db ! s)),
                recipient_email = None, sender_email = Some (email (snd (users db ! s))),
                timestamp = now2,
                balance_after = PyFloat (dec_round (balance (snd (users db ! r)) + amt))\<rparr>]\<rparr>))"
proof -
  let ?L = "send_money_loop (map snd (users db)) sid rmail 0 (None, None)"
  from assms(1) obtain s where s: "fst ?L = Some s"
    using send_money_loop_sender_None [of "map snd (users db)" sid rmail] by auto
  from assms(2) obtain r where r: "snd ?L = Some r"
    using send_money_loop_recipient_None [of "map snd (users db)" sid rmail] by auto
  from send_money_loop_sender_Some [OF s] have ps: "s < length (users db)"
    "id_user (snd (users db ! s)) = sid"
    "find (\<lambda>u. id_user u = sid) (rev (map snd (users db))) = Some (snd (users db ! s))"
    by auto
  from send_money_loop_recipient_Some [OF r] have pr: "r < length (users db)"
    "email (snd (users db ! r)) = rmail"
    "find (\<lambda>u. email u = rmail) (rev (map snd (users db))) = Some (snd (users db ! r))"
    by auto
  have L: "?L = (Some s, Some r)" using s r by (simp add: prod_eq_iff)
  show thesis
  proof (rule that [OF ps(1) pr(1) ps(2) pr(2) ps(3) pr(3)])
    show "send_money db sid rmail amt descr uuid1 now1 uuid2 now2 =
       (if email (snd (users db ! s)) = rmail then (Inl CannotSendToYourself, db)
        else if balance (snd (users db ! s)) < amt then (Inl InsufficientBalance, db)
        else
          (Inr (dec_round (balance (snd (users db ! s)) - amt),
             \<lparr>id_tx = uuid1, user_id = sid, type_tx = transfer_out, amount = PyFloat amt,
              description = description_or descr (''Sent to '' @ rmail),
              recipient_email = Some rmail, sender_email = None, timestamp = now1,
              balance_after = PyFloat (dec_round (balance (snd (users db ! s)) - amt))\<rparr>),
           \<lparr>users = add_balance (add_balance (users db) s (- amt)) r amt,
            transactions = transactions db @
              [\<lparr>id_tx = uuid1, user_id = sid, type_tx = transfer_out, amount = PyFloat amt,
                description = description_or descr (''Sent to '' @ rmail),
                recipient_email = Some rmail, sender_email = None, timestamp = now1,
                balance_after = PyFloat (dec_round (balance (snd (users db ! s)) - amt))\<rparr>,
               \<lparr>id_tx = uuid2, user_id = id_user (snd (users db ! r)), type_tx = transfer_in,
                amount = PyFloat amt,
                description = ''Received from '' @ email (snd (users db ! s)),
                recipient_email = None, sender_email = Some (email (snd (users db ! s))),
                timestamp = now2,
                balance_after = PyFloat (dec_round (balance (snd (users db ! r)) + amt))\<rparr>]\<rparr>))"
    proof (cases "s = r")
      case True
      with ps pr show ?thesis by (simp add: send_money_def L)
    next
      case False
      with ps pr show ?thesis
        by (simp add: send_money_def L Let_def nth_add_balance)
    qed
  qed
qed

lemma add_money_error:
  "fst (add_money db uid amt uuid now) = Inl e \<Longrightarrow> e = UserNotFound"
proof (cases "uid \<in> set (map (id_user \<circ> snd) (users db))")
  case False
  assume "fst (add_money db uid amt uuid now) = Inl e"
  with False show ?thesis by (simp add: add_money_not_found)
next
  case True
  assume e: "fst (add_money db uid amt uuid now) = Inl e"
  from True show ?thesis
  proof (cases rule: add_money_found [where amt = amt and uuid = uuid and now = now])
    case (found i)
    with e show ?thesis by simp
  qed
qed

lemma send_money_error:
  assumes e: "fst (send_money db sid rmail amt descr uuid1 now1 uuid2 now2) = Inl e"
  shows "e = SenderNotFound \<or> e = RecipientNotFound \<or> e = CannotSendToYourself
     \<or> e = InsufficientBalance"
proof (cases "sid \<in> set (map (id_user \<circ> snd) (users db))")
  case False
  with e show ?thesis by (simp add: send_money_no_sender)
next
  case s: True
  show ?thesis
  proof (cases "rmail \<in> set (map (email \<circ> snd) (users db))")
    case False
    with s e show ?thesis by (simp add: send_money_no_recipient)
  next
    case True
    from s True show ?thesis
    proof (cases rule: send_money_found [where amt = amt and descr = descr and
          ?uuid1.0 = uuid1 and ?now1.0 = now1 and ?uuid2.0 = uuid2 and ?now2.0 = now2])
      case (found s r)
      with e show ?thesis by (auto split: if_splits)
    qed
  qed
qed

lemma send_money_failure_unchanged:
  "fst (send_money db sid rmail amt descr uuid1 now1 uuid2 now2) = Inl e \<Longrightarrow>
     snd (send_money db sid rmail amt descr uuid1 now1 uuid2 now2) = db"
proof (cases "sid \<in> set (map (id_user \<circ> snd) (users db))")
  case False
  then show ?thesis by (simp add: send_money_no_sender)
next
  case s: True
  assume e: "fst (send_money db sid rmail amt descr uuid1 now1 uuid2 now2) = Inl e"
  show ?thesis
  proof (cases "rmail \<in> set (map (email \<circ> snd) (users db))")
    case False
    with s show ?thesis by (simp add: send_money_no_recipient)
  next
    case True
    from s True show ?thesis
    proof (cases rule: send_money_found [where amt = amt and descr = descr and
          ?uuid1.0 = uuid1 and ?now1.0 = now1 and ?uuid2.0 = uuid2 and ?now2.0 = now2])
      case (found s r)
      with e show ?thesis by (simp split: if_splits)
    qed
  qed
qed

lemma send_money_by_sender:
  assumes "find (\<lambda>u. id_user u = sid) (rev (map snd (users db))) = Some sender"
    and r: "rmail \<in> set (map (email \<circ> snd) (users db))"
  shows "(email sender = rmail \<longrightarrow>
           send_money db sid rmail amt descr uuid1 now1 uuid2 now2 =
             (Inl CannotSendToYourself, db))
        \<and> (email sender \<noteq> rmail \<and> balance sender < amt \<longrightarrow>
           send_money db sid rmail amt descr uuid1 now1 uuid2 now2 =
             (Inl InsufficientBalance, db))
        \<and> (email sender \<noteq> rmail \<and> amt \<le> balance sender \<longrightarrow>
           map_sum id fst (fst (send_money db sid rmail amt descr uuid1 now1 uuid2 now2)) =
             Inr (dec_round (balance sender - amt)))"
proof -
  from assms(1) have "sender \<in> set (rev (map snd (users db)))" "id_user sender = sid"
    by (auto dest: find_SomeD)
  then have s: "sid \<in> set (map (id_user \<circ> snd) (users db))" by auto
  from s r show ?thesis
  proof (cases rule: send_money_found [where amt = amt and descr = descr and
          ?uuid1.0 = uuid1 and ?now1.0 = now1 and ?uuid2.0 = uuid2 and ?now2.0 = now2])
    case (found s r)
    from found(5) assms(1) have "sender = snd (users db ! s)" by simp
    with found(7) show ?thesis by simp
  qed
qed

lemma apply_op_log:
  "transactions (apply_op db x) = transactions db
   \<or> (\<exists>c. transactions (apply_op db x) = transactions db @ [c] \<and> type_tx c = credit
          \<and> user_id c \<in> set (map (id_user \<circ> snd) (users db))
          \<and> (\<exists>a. op_amount x = Some a \<and> amount c = PyFloat a))
   \<or> (\<exists>out inn. transactions (apply_op db x) = transactions db @ [out, inn]
          \<and> type_tx out = transfer_out \<and> type_tx inn = transfer_in
          \<and> user_id out \<in> set (map (id_user \<circ> snd) (users db))
          \<and> user_id inn \<in> set (map (id_user \<circ> snd) (users db))
          \<and> (\<exists>a. op_amount x = Some a \<and> amount out = PyFloat a \<and> amount inn = PyFloat a))"
proof (cases x)
  case (Register e p n i)
  then show ?thesis by simp
next
  case (AddMoney uid amt uuid now)
  show ?thesis
  proof (cases "uid \<in> set (map (id_user \<circ> snd) (users db))")
    case False
    then show ?thesis using AddMoney by (simp add: add_money_not_found)
  next
    case True
    from True show ?thesis
    proof (cases rule: add_money_found [where amt = amt and uuid = uuid and now = now])
      case (found i)
      with True AddMoney show ?thesis by simp
    qed
  qed
next
  case (SendMoney sid rmail amt descr uuid1 now1 uuid2 now2)
  show ?thesis
  proof (cases "sid \<in> set (map (id_user \<circ> snd) (users db))")
    case False
    then show ?thesis using SendMoney by (simp add: send_money_no_sender)
  next
    case s: True
    show ?thesis
    proof (cases "rmail \<in> set (map (email \<circ> snd) (users db))")
      case False
      with s show ?thesis using SendMoney by (simp add: send_money_no_recipient)
    next
      case True
      from s True show ?thesis
      proof (cases rule: send_money_found [where amt = amt and descr = descr and
          ?uuid1.0 = uuid1 and ?now1.0 = now1 and ?uuid2.0 = uuid2 and ?now2.0 = now2])
        case (found s r)
        have "id_user (snd (users db ! r)) \<in> set (map (id_user \<circ> snd) (users db))"
          using found(2) by (metis comp_apply nth_map nth_mem length_map)
        with found SendMoney \<open>sid \<in> _\<close> show ?thesis by simp
      qed
    qed
  qed
qed

lemma apply_op_ids:
  "set (map (id_user \<circ> snd) (users db)) \<subseteq> set (map (id_user \<circ> snd) (users (apply_op db x)))"
proof (cases x)
  case (Register e p n i)
  then show ?thesis by (auto simp: register_user_users)
next
  case (AddMoney uid amt uuid now)
  show ?thesis
  proof (cases "uid \<in> set (map (id_user \<circ> snd) (users db))")
    case False
    then show ?thesis using AddMoney by (simp add: add_money_not_found)
  next
    case True
    from True show ?thesis
    proof (cases rule: add_money_found [where amt = amt and uuid = uuid and now = now])
      case (found i)
      with AddMoney show ?thesis by (simp del: map_map set_map)
    qed
  qed
next
  case (SendMoney sid rmail amt descr uuid1 now1 uuid2 now2)
  show ?thesis
  proof (cases "sid \<in> set (map (id_user \<circ> snd) (users db))")
    case False
    then show ?thesis using SendMoney by (simp add: send_money_no_sender)
  next
    case s: True
    show ?thesis
    proof (cases "rmail \<in> set (map (email \<circ> snd) (users db))")
      case False
      with s show ?thesis using SendMoney by (simp add: send_money_no_recipient)
    next
      case True
      from s True show ?thesis
      proof (cases rule: send_money_found [where amt = amt and descr = descr and
          ?uuid1.0 = uuid1 and ?now1.0 = now1 and ?uuid2.0 = uuid2 and ?now2.0 = now2])
        case (found s r)
        with SendMoney show ?thesis by (simp del: map_map set_map)
      qed
    qed
  qed
qed

lemma log_ids_step:
  assumes "set (map user_id (transactions db)) \<subseteq> set (map (id_user \<circ> snd) (users db))"
  shows "set (map user_id (transactions (apply_op db x)))
           \<subseteq> set (map (id_user \<circ> snd) (users (apply_op db x)))"
proof -
  have "set (map user_id (transactions (apply_op db x))) \<subseteq> set (map (id_user \<circ> snd) (users db))"
    using apply_op_log [of db x] assms by (elim disjE exE conjE) (simp_all del: map_map)
  with apply_op_ids [of db x] show ?thesis by (rule order_trans [rotated])
qed

lemma log_ids_run:
  "set (map user_id (transactions db)) \<subseteq> set (map (id_user \<circ> snd) (users db)) \<Longrightarrow>
   set (map user_id (transactions (run db ops))) \<subseteq> set (map (id_user \<circ> snd) (users (run db ops)))"
  by (induction ops arbitrary: db) (simp_all add: log_ids_step del: set_map map_map)

subsection \<open>Balances are not negative\<close>

lemma nonneg_step:
  assumes pos: "case op_amount x of None \<Rightarrow> True | Some a \<Rightarrow> 0 < a"
    and nn: "\<forall>j < length (users db). 0 \<le> balance (snd (users db ! j))"
  shows "\<forall>j < length (users (apply_op db x)). 0 \<le> balance (snd (users (apply_op db x) ! j))"
proof (cases x)
  case (Register e p n i)
  then show ?thesis using nn by (auto simp: register_user_users nth_append)
next
  case (AddMoney uid amt uuid now)
  with pos have amt: "0 < amt" by simp
  show ?thesis
  proof (cases "uid \<in> set (map (id_user \<circ> snd) (users db))")
    case False
    then show ?thesis using AddMoney nn by (simp add: add_money_not_found)
  next
    case True
    from True show ?thesis
    proof (cases rule: add_money_found [where amt = amt and uuid = uuid and now = now])
      case (found i)
      with AddMoney nn amt show ?thesis
        by (auto simp: nth_add_balance intro!: dec_round_nonneg add_nonneg_nonneg)
    qed
  qed
next
  case (SendMoney sid rmail amt descr uuid1 now1 uuid2 now2)
  with pos have amt: "0 < amt" by simp
  show ?thesis
  proof (cases "sid \<in> set (map (id_user \<circ> snd) (users db))")
    case False
    then show ?thesis using SendMoney nn by (simp add: send_money_no_sender)
  next
    case s: True
    show ?thesis
    proof (cases "rmail \<in> set (map (email \<circ> snd) (users db))")
      case False
      with s show ?thesis using SendMoney nn by (simp add: send_money_no_recipient)
    next
      case True
      from s True show ?thesis
      proof (cases rule: send_money_found [where amt = amt and descr = descr and
          ?uuid1.0 = uuid1 and ?now1.0 = now1 and ?uuid2.0 = uuid2 and ?now2.0 = now2])
        case (found s r)
        show ?thesis
        proof (cases "email (snd (users db ! s)) = rmail \<or> balance (snd (users db ! s)) < amt")
          case True
          with found(7) SendMoney nn show ?thesis by auto
        next
          case False
          then have ne: "email (snd (users db ! s)) \<noteq> rmail"
            and ge: "amt \<le> balance (snd (users db ! s))" by auto
          from ne found(4) have sr: "s \<noteq> r" by auto
          have us: "users (apply_op db x) = add_balance (add_balance (users db) s (- amt)) r amt"
            using found(7) SendMoney ne ge by simp
          show ?thesis
          proof (intro allI impI)
            fix j assume "j < length (users (apply_op db x))"
            then have j: "j < length (users db)" by (simp add: us)
            with nn have "0 \<le> balance (snd (users db ! j))" by simp
            moreover from ge have "0 \<le> dec_round (balance (snd (users db ! s)) - amt)"
              by (intro dec_round_nonneg) simp
            moreover from nn found(2) amt
            have "0 \<le> dec_round (balance (snd (users db ! r)) + amt)"
              by (intro dec_round_nonneg add_nonneg_nonneg) simp_all
            ultimately show "0 \<le> balance (snd (users (apply_op db x) ! j))"
              using j sr found(1,2) by (auto simp: us nth_add_balance)
          qed
        qed
      qed
    qed
  qed
qed

lemma nonneg_run:
  "positive_amounts ops \<Longrightarrow>
   \<forall>j < length (users db). 0 \<le> balance (snd (users db ! j)) \<Longrightarrow>
   \<forall>j < length (users (run db ops)). 0 \<le> balance (snd (users (run db ops) ! j))"
proof (induction ops arbitrary: db)
  case Nil
  then show ?case by simp
next
  case (Cons x xs)
  from Cons.prems(1) have p: "case op_amount x of None \<Rightarrow> True | Some a \<Rightarrow> 0 < a"
    and ps: "positive_amounts xs" by (simp_all add: positive_amounts_def)
  from Cons.IH [OF ps nonneg_step [OF p Cons.prems(2)]] show ?case by simp
qed

lemma positive_amounts_take: "positive_amounts ops \<Longrightarrow> positive_amounts (take n ops)"
  unfolding positive_amounts_def list_all_iff by (auto dest: in_set_takeD)

text \<open>
  Claim C1, as the code has it. Starting from balances that are not negative, after every
  call of a sequence whose amounts are positive (the dialogs pass no other amount) every
  balance is still not negative. A transfer that would take the sender's balance below zero
  is rejected with \<open>Insufficient balance\<close> and leaves the database, balances and log, as it
  was.
\<close>

theorem balances_stay_nonnegative:
  assumes "positive_amounts ops"
    and "\<forall>u \<in> set (map snd (users db)). 0 \<le> balance u"
  shows "(\<forall>n. \<forall>u \<in> set (map snd (users (run db (take n ops)))). 0 \<le> balance u)
    \<and> (\<forall>sender.
         find (\<lambda>u. id_user u = sid) (rev (map snd (users db))) = Some sender \<and>
         rmail \<in> set (map (email \<circ> snd) (users db)) \<and> email sender \<noteq> rmail \<and>
         balance sender - amt < 0 \<longrightarrow>
         send_money db sid rmail amt descr uuid1 now1 uuid2 now2 = (Inl InsufficientBalance, db))"
proof (intro conjI allI impI)
  fix n
  have nn: "\<forall>j < length (users db). 0 \<le> balance (snd (users db ! j))"
    using assms(2) by (simp add: all_set_conv_all_nth)
  from nonneg_run [OF positive_amounts_take [OF assms(1)] nn, of n]
  show "\<forall>u \<in> set (map snd (users (run db (take n ops)))). 0 \<le> balance u"
    by (simp add: all_set_conv_all_nth)
next
  fix sender
  assume a: "find (\<lambda>u. id_user u = sid) (rev (map snd (users db))) = Some sender \<and>
         rmail \<in> set (map (email \<circ> snd) (users db)) \<and> email sender \<noteq> rmail \<and>
         balance sender - amt < 0"
  then have f: "find (\<lambda>u. id_user u = sid) (rev (map snd (users db))) = Some sender"
    and r: "rmail \<in> set (map (email \<circ> snd) (users db))"
    and c: "email sender \<noteq> rmail \<and> balance sender < amt" by simp_all
  from send_money_by_sender [OF f r, of amt descr uuid1 now1 uuid2 now2] c
  show "send_money db sid rmail amt descr uuid1 now1 uuid2 now2 = (Inl InsufficientBalance, db)"
    by blast
qed

theorem balances_stay_nonnegative_witness:
  "positive_amounts [AddMoney ''1'' 50 ''t1'' ''2024-01-01T10:00:00'',
       SendMoney ''1'' ''bob@example.com'' 200 None ''t2'' ''2024-01-01T10:00:01''
         ''t3'' ''2024-01-01T10:00:01'']
   \<and> list_all (\<lambda>u. 0 \<le> balance u) (map snd (users (run WalletDatabase_init
       (take 2 [AddMoney ''1'' 50 ''t1'' ''2024-01-01T10:00:00'',
         SendMoney ''1'' ''bob@example.com'' 200 None ''t2'' ''2024-01-01T10:00:01''
           ''t3'' ''2024-01-01T10:00:01'']))))
   \<and> send_money WalletDatabase_init ''1'' ''bob@example.com'' 2000 None
       ''t1'' ''2024-01-01T10:00:00'' ''t2'' ''2024-01-01T10:00:00'' =
     (Inl InsufficientBalance, WalletDatabase_init)"
proof -
  let ?ops = "[AddMoney ''1'' 50 ''t1'' ''2024-01-01T10:00:00'',
       SendMoney ''1'' ''bob@example.com'' 200 None ''t2'' ''2024-01-01T10:00:01''
         ''t3'' ''2024-01-01T10:00:01'']"
  let ?alice = "\<lparr>id_user = ''1'', email = ''alice@example.com'',
    password_hash = hash_password123, full_name = ''Alice Smith'', balance = 1000\<rparr>"
  have h1: "positive_amounts ?ops" by (simp add: positive_amounts_def)
  have h2: "\<forall>u \<in> set (map snd (users WalletDatabase_init)). 0 \<le> balance u"
    by (simp add: WalletDatabase_init_def)
  have h3: "find (\<lambda>u. id_user u = ''1'') (rev (map snd (users WalletDatabase_init))) = Some ?alice
      \<and> ''bob@example.com'' \<in> set (map (email \<circ> snd) (users WalletDatabase_init))
      \<and> email ?alice \<noteq> ''bob@example.com'' \<and> balance ?alice - 2000 < 0"
    by (simp add: WalletDatabase_init_def)
  note t = balances_stay_nonnegative [OF h1 h2, of "''1''" "''bob@example.com''" 2000 None
      "''t1''" "''2024-01-01T10:00:00''" "''t2''" "''2024-01-01T10:00:00''"]
  from t have a: "list_all (\<lambda>u. 0 \<le> balance u) (map snd (users (run WalletDatabase_init
       (take 2 ?ops))))"
    unfolding list_all_iff by blast
  from t h3 have b: "send_money WalletDatabase_init ''1'' ''bob@example.com'' 2000 None
       ''t1'' ''2024-01-01T10:00:00'' ''t2'' ''2024-01-01T10:00:00'' =
     (Inl InsufficientBalance, WalletDatabase_init)"
    by blast
  from h1 a b show ?thesis by (intro conjI)
qed

text \<open>
  The database itself does not keep balances from going negative: \<open>add_money\<close> with the
  amount \<open>-2000\<close> for user \<open>'1'\<close> of the initial database succeeds and leaves the balance
  at \<open>-1000\<close>.
\<close>

theorem add_money_makes_balance_negative:
  "map_sum id fst (fst (add_money WalletDatabase_init ''1'' (- 2000) ''t1'' ''2024-01-01T10:00:00''))
     = Inr (- 1000)
   \<and> get_balance (snd (add_money WalletDatabase_init ''1'' (- 2000) ''t1'' ''2024-01-01T10:00:00''))
       ''1'' = - 1000"
  by (simp add: add_money_def WalletDatabase_init_def add_balance_def get_balance_def Let_def)

subsection \<open>Conservation\<close>

lemma exact_call_add_money:
  assumes "exact_call db (AddMoney uid amt uuid now)"
    and "find (\<lambda>u. id_user u = uid) (map snd (users db)) = Some u"
  shows "dec_round (balance u + amt) = balance u + amt"
  using assms by (simp add: unrounded_def)

lemma exact_call_send_money:
  assumes "exact_call db (SendMoney sid rmail amt descr uuid1 now1 uuid2 now2)"
    and "find (\<lambda>u. id_user u = sid) (rev (map snd (users db))) = Some sender"
    and "find (\<lambda>u. email u = rmail) (rev (map snd (users db))) = Some recipient"
    and "email sender \<noteq> rmail" and "\<not> balance sender < amt"
  shows "dec_round (balance sender - amt) = balance sender - amt
     \<and> dec_round (balance recipient + amt) = balance recipient + amt"
  using assms by (simp add: unrounded_def)







subsection \<open>Amounts that are not positive\<close>

text \<open>
  Claim C3, as the code has it. The check \<open>amount <= 0\<close> is made by the callers of the
  database, the dialog callbacks: for such an amount they do not call \<open>add_money\<close> or
  \<open>send_money\<close>, so no balance changes and no entry is appended. The add dialog reports
  \<open>Amount must be positive\<close>. The send dialog reports it when its recipient field is
  filled in; when that field is empty it returns at once and reports nothing. The methods
  themselves have no error for the amount: the only error of \<open>add_money\<close> is
  \<open>User not found\<close>, and those of \<open>send_money\<close> are the four of its checks.
\<close>

theorem dialogs_reject_nonpositive_amount:
  assumes "amt \<le> 0"
  shows "dialog_add_money db uid amt uuid now = (Some (Inl AmountMustBePositive), db)
     \<and> dialog_send_money db uid recipient amt dtext uuid1 now1 uuid2 now2 =
         (if recipient = [] then None else Some (Inl AmountMustBePositive), db)
     \<and> (\<forall>e. fst (add_money db uid amt uuid now) = Inl e \<longrightarrow> e = UserNotFound)
     \<and> (\<forall>e. fst (send_money db uid recipient amt descr uuid1 now1 uuid2 now2) = Inl e \<longrightarrow>
           e = SenderNotFound \<or> e = RecipientNotFound \<or> e = CannotSendToYourself
           \<or> e = InsufficientBalance)"
  using assms add_money_error [of db uid amt uuid now]
    send_money_error [of db uid recipient amt descr uuid1 now1 uuid2 now2]
  by (simp add: dialog_add_money_def dialog_send_money_def)

theorem dialogs_reject_nonpositive_amount_witness:
  "(- 5 :: rat) \<le> 0
   \<and> dialog_add_money WalletDatabase_init ''1'' (- 5) ''t1'' ''2024-01-01T10:00:00'' =
       (Some (Inl AmountMustBePositive), WalletDatabase_init)
   \<and> dialog_send_money WalletDatabase_init ''1'' ''bob@example.com'' (- 5) ''rent''
         ''t1'' ''2024-01-01T10:00:00'' ''t2'' ''2024-01-01T10:00:00'' =
       (Some (Inl AmountMustBePositive), WalletDatabase_init)"
proof -
  have h: "(- 5 :: rat) \<le> 0" by simp
  from dialogs_reject_nonpositive_amount [OF h, where db = WalletDatabase_init and uid = "''1''"
      and uuid = "''t1''" and now = "''2024-01-01T10:00:00''"
      and recipient = "''bob@example.com''" and dtext = "''rent''" and ?uuid1.0 = "''t1''"
      and ?now1.0 = "''2024-01-01T10:00:00''" and ?uuid2.0 = "''t2''"
      and ?now2.0 = "''2024-01-01T10:00:00''" and descr = None] h
  show ?thesis by simp
qed

text \<open>
  \<open>add_money\<close> has no check of the amount. Called on the initial database for user
  \<open>'1'\<close> with the amount \<open>-5\<close>, it succeeds, the balance goes from 1000 to 995 and one
  entry is appended.
\<close>

theorem add_money_accepts_negative_amount:
  "map_sum id fst (fst (add_money WalletDatabase_init ''1'' (- 5) ''t1'' ''2024-01-01T10:00:00'')) = Inr 995
   \<and> get_balance (snd (add_money WalletDatabase_init ''1'' (- 5) ''t1'' ''2024-01-01T10:00:00'')) ''1'' = 995
   \<and> length (transactions (snd (add_money WalletDatabase_init ''1'' (- 5) ''t1'' ''2024-01-01T10:00:00''))) = 1"
  by (simp add: add_money_def WalletDatabase_init_def add_balance_def get_balance_def Let_def)

subsection \<open>The checks of \<open>send_money\<close>\<close>

text \<open>
  Claim C4, as the code has it. \<open>send_money\<close> makes four checks, in this order: the sender
  exists (\<open>Sender not found\<close>), the recipient address belongs to a user
  (\<open>Recipient not found\<close>), the sender's address differs from the recipient address
  (\<open>Cannot send money to yourself\<close>), the sender's balance is at least the amount
  (\<open>Insufficient balance\<close>). The first check that fails gives the error; when none fails
  the call succeeds and returns the sender's new balance. A call that returns an error
  leaves the database, balances and log, as it was. The sender is the last user with the
  given id, which is what the loop leaves in \<open>sender\<close>. That the amount is positive is
  checked before these four, not by \<open>send_money\<close> but by its caller: the send dialog
  reports \<open>Amount must be positive\<close> for an amount that is not, and calls \<open>send_money\<close>
  otherwise.
\<close>

theorem send_money_checks_in_order:
  "(sid \<notin> set (map (id_user \<circ> snd) (users db)) \<longrightarrow>
      send_money db sid rmail amt descr uuid1 now1 uuid2 now2 = (Inl SenderNotFound, db))
   \<and> (sid \<in> set (map (id_user \<circ> snd) (users db)) \<and>
       rmail \<notin> set (map (email \<circ> snd) (users db)) \<longrightarrow>
      send_money db sid rmail amt descr uuid1 now1 uuid2 now2 = (Inl RecipientNotFound, db))
   \<and> (\<forall>sender.
        find (\<lambda>u. id_user u = sid) (rev (map snd (users db))) = Some sender \<and>
        rmail \<in> set (map (email \<circ> snd) (users db)) \<longrightarrow>
        (email sender = rmail \<longrightarrow>
           send_money db sid rmail amt descr uuid1 now1 uuid2 now2 =
             (Inl CannotSendToYourself, db))
        \<and> (email sender \<noteq> rmail \<and> balance sender < amt \<longrightarrow>
           send_money db sid rmail amt descr uuid1 now1 uuid2 now2 =
             (Inl InsufficientBalance, db))
        \<and> (email sender \<noteq> rmail \<and> amt \<le> balance sender \<longrightarrow>
           map_sum id fst (fst (send_money db sid rmail amt descr uuid1 now1 uuid2 now2)) =
             Inr (dec_round (balance sender - amt))))
   \<and> (\<forall>e. fst (send_money db sid rmail amt descr uuid1 now1 uuid2 now2) = Inl e \<longrightarrow>
        snd (send_money db sid rmail amt descr uuid1 now1 uuid2 now2) = db)
   \<and> (rmail \<noteq> [] \<longrightarrow>
        dialog_send_money db sid rmail amt dtext uuid1 now1 uuid2 now2 =
          (if amt \<le> 0 then (Some (Inl AmountMustBePositive), db)
           else (Some (fst (send_money db sid rmail amt
                   (Some (if dtext = [] then ''Money transfer'' else dtext)) uuid1 now1 uuid2 now2)),
                 snd (send_money db sid rmail amt
                   (Some (if dtext = [] then ''Money transfer'' else dtext)) uuid1 now1 uuid2 now2))))"
proof (intro conjI allI impI)
  assume "rmail \<noteq> []"
  then show "dialog_send_money db sid rmail amt dtext uuid1 now1 uuid2 now2 =
          (if amt \<le> 0 then (Some (Inl AmountMustBePositive), db)
           else (Some (fst (send_money db sid rmail amt
                   (Some (if dtext = [] then ''Money transfer'' else dtext)) uuid1 now1 uuid2 now2)),
                 snd (send_money db sid rmail amt
                   (Some (if dtext = [] then ''Money transfer'' else dtext)) uuid1 now1 uuid2 now2)))"
    by (simp add: dialog_send_money_def split: prod.splits)
next
  assume "sid \<notin> set (map (id_user \<circ> snd) (users db))"
  then show "send_money db sid rmail amt descr uuid1 now1 uuid2 now2 = (Inl SenderNotFound, db)"
    by (rule send_money_no_sender)
next
  assume "sid \<in> set (map (id_user \<circ> snd) (users db)) \<and>
       rmail \<notin> set (map (email \<circ> snd) (users db))"
  then show "send_money db sid rmail amt descr uuid1 now1 uuid2 now2 = (Inl RecipientNotFound, db)"
    by (simp add: send_money_no_recipient)
next
  fix e
  assume "fst (send_money db sid rmail amt descr uuid1 now1 uuid2 now2) = Inl e"
  then show "snd (send_money db sid rmail amt descr uuid1 now1 uuid2 now2) = db"
    by (rule send_money_failure_unchanged)
next
  fix sender
  assume a: "find (\<lambda>u. id_user u = sid) (rev (map snd (users db))) = Some sender \<and>
        rmail \<in> set (map (email \<circ> snd) (users db))"
  then have f: "find (\<lambda>u. id_user u = sid) (rev (map snd (users db))) = Some sender"
    and r: "rmail \<in> set (map (email \<circ> snd) (users db))" by simp_all
  note * = send_money_by_sender [OF f r, of amt descr uuid1 now1 uuid2 now2]
  { assume "email sender = rmail"
    with * show "send_money db sid rmail amt descr uuid1 now1 uuid2 now2 =
             (Inl CannotSendToYourself, db)" by blast }
  { assume "email sender \<noteq> rmail \<and> balance sender < amt"
    with * show "send_money db sid rmail amt descr uuid1 now1 uuid2 now2 =
             (Inl InsufficientBalance, db)" by blast }
  { assume "email sender \<noteq> rmail \<and> amt \<le> balance sender"
    with * show "map_sum id fst (fst (send_money db sid rmail amt descr uuid1 now1 uuid2 now2)) =
             Inr (dec_round (balance sender - amt))" by blast }
qed

theorem send_money_checks_in_order_witness:
  "send_money WalletDatabase_init ''9'' ''bob@example.com'' 10 None
       ''t1'' ''2024-01-01T10:00:00'' ''t2'' ''2024-01-01T10:00:00'' =
     (Inl SenderNotFound, WalletDatabase_init)
   \<and> send_money WalletDatabase_init ''1'' ''carol@example.com'' 10 None
       ''t1'' ''2024-01-01T10:00:00'' ''t2'' ''2024-01-01T10:00:00'' =
     (Inl RecipientNotFound, WalletDatabase_init)
   \<and> send_money WalletDatabase_init ''1'' ''alice@example.com'' 10 None
       ''t1'' ''2024-01-01T10:00:00'' ''t2'' ''2024-01-01T10:00:00'' =
     (Inl CannotSendToYourself, WalletDatabase_init)
   \<and> send_money WalletDatabase_init ''1'' ''bob@example.com'' 2000 None
       ''t1'' ''2024-01-01T10:00:00'' ''t2'' ''2024-01-01T10:00:00'' =
     (Inl InsufficientBalance, WalletDatabase_init)
   \<and> map_sum id fst (fst (send_money WalletDatabase_init ''1'' ''bob@example.com'' 200 None
       ''t1'' ''2024-01-01T10:00:00'' ''t2'' ''2024-01-01T10:00:00'')) = Inr 800
   \<and> dialog_send_money WalletDatabase_init ''1'' ''bob@example.com'' 0 ''rent''
       ''t1'' ''2024-01-01T10:00:00'' ''t2'' ''2024-01-01T10:00:00'' =
     (Some (Inl AmountMustBePositive), WalletDatabase_init)"
proof -
  let ?alice = "\<lparr>id_user = ''1'', email = ''alice@example.com'',
    password_hash = hash_password123, full_name = ''Alice Smith'', balance = 1000\<rparr>"
  have h1: "''9'' \<notin> set (map (id_user \<circ> snd) (users WalletDatabase_init))"
    by (simp add: WalletDatabase_init_def)
  have h2: "''1'' \<in> set (map (id_user \<circ> snd) (users WalletDatabase_init)) \<and>
      ''carol@example.com'' \<notin> set (map (email \<circ> snd) (users WalletDatabase_init))"
    by (simp add: WalletDatabase_init_def)
  have h3: "find (\<lambda>u. id_user u = ''1'') (rev (map snd (users WalletDatabase_init))) = Some ?alice
      \<and> ''alice@example.com'' \<in> set (map (email \<circ> snd) (users WalletDatabase_init))"
    by (simp add: WalletDatabase_init_def)
  have h4: "find (\<lambda>u. id_user u = ''1'') (rev (map snd (users WalletDatabase_init))) = Some ?alice
      \<and> ''bob@example.com'' \<in> set (map (email \<circ> snd) (users WalletDatabase_init))"
    by (simp add: WalletDatabase_init_def)
  have c1: "send_money WalletDatabase_init ''9'' ''bob@example.com'' 10 None
       ''t1'' ''2024-01-01T10:00:00'' ''t2'' ''2024-01-01T10:00:00'' =
     (Inl SenderNotFound, WalletDatabase_init)"
    using h1 send_money_checks_in_order [of "''9''" WalletDatabase_init] by blast
  have c2: "send_money WalletDatabase_init ''1'' ''carol@example.com'' 10 None
       ''t1'' ''2024-01-01T10:00:00'' ''t2'' ''2024-01-01T10:00:00'' =
     (Inl RecipientNotFound, WalletDatabase_init)"
    using h2 send_money_checks_in_order [of "''1''" WalletDatabase_init "''carol@example.com''"]
    by blast
  have c3: "send_money WalletDatabase_init ''1'' ''alice@example.com'' 10 None
       ''t1'' ''2024-01-01T10:00:00'' ''t2'' ''2024-01-01T10:00:00'' =
     (Inl CannotSendToYourself, WalletDatabase_init)"
    using h3 send_money_checks_in_order [of "''1''" WalletDatabase_init "''alice@example.com''"
        10 None "''t1''" "''2024-01-01T10:00:00''" "''t2''" "''2024-01-01T10:00:00''"]
    by simp
  have c4: "send_money WalletDatabase_init ''1'' ''bob@example.com'' 2000 None
       ''t1'' ''2024-01-01T10:00:00'' ''t2'' ''2024-01-01T10:00:00'' =
     (Inl InsufficientBalance, WalletDatabase_init)"
    using h4 send_money_checks_in_order [of "''1''" WalletDatabase_init "''bob@example.com''"
        2000 None "''t1''" "''2024-01-01T10:00:00''" "''t2''" "''2024-01-01T10:00:00''"]
    by simp
  have c5: "map_sum id fst (fst (send_money WalletDatabase_init ''1'' ''bob@example.com'' 200 None
       ''t1'' ''2024-01-01T10:00:00'' ''t2'' ''2024-01-01T10:00:00'')) = Inr 800"
    using h4 send_money_checks_in_order [of "''1''" WalletDatabase_init "''bob@example.com''"
        200 None "''t1''" "''2024-01-01T10:00:00''" "''t2''" "''2024-01-01T10:00:00''"]
    by simp
  have h6: "''bob@example.com'' \<noteq> []" by simp
  have c6: "dialog_send_money WalletDatabase_init ''1'' ''bob@example.com'' 0 ''rent''
       ''t1'' ''2024-01-01T10:00:00'' ''t2'' ''2024-01-01T10:00:00'' =
     (Some (Inl AmountMustBePositive), WalletDatabase_init)"
    using h6 send_money_checks_in_order [of "''1''" WalletDatabase_init "''bob@example.com''"
        0 None "''t1''" "''2024-01-01T10:00:00''" "''t2''" "''2024-01-01T10:00:00''" "''rent''"]
    by simp
  from c1 c2 c3 c4 c5 c6 show ?thesis by (intro conjI)
qed

text \<open>
  \<open>send_money\<close> has no check of the amount. On the initial database, user
  \<open>'1'\<close> sending \<open>-5\<close> to \<open>bob@example.com\<close> succeeds: the sender's balance becomes
  1005, the recipient's 495, and two entries are appended.
\<close>

theorem send_money_accepts_negative_amount:
  "map_sum id fst (fst (send_money WalletDatabase_init ''1'' ''bob@example.com'' (- 5) None
       ''t1'' ''2024-01-01T10:00:00'' ''t2'' ''2024-01-01T10:00:00'')) = Inr 1005
   \<and> get_balance (snd (send_money WalletDatabase_init ''1'' ''bob@example.com'' (- 5) None
       ''t1'' ''2024-01-01T10:00:00'' ''t2'' ''2024-01-01T10:00:00'')) ''2'' = 495
   \<and> length (transactions (snd (send_money WalletDatabase_init ''1'' ''bob@example.com'' (- 5) None
       ''t1'' ''2024-01-01T10:00:00'' ''t2'' ''2024-01-01T10:00:00''))) = 2"
  by (simp add: send_money_def WalletDatabase_init_def add_balance_def get_balance_def Let_def)

subsection \<open>Reconstruction of a balance from the log\<close>

lemma sum_list_sort_key:
  fixes f :: "'a \<Rightarrow> rat"
  shows "sum_list (map f (sort_key k xs)) = sum_list (map f xs)"
proof -
  have "mset (map f (sort_key k xs)) = mset (map f xs)" by simp
  then show ?thesis by (metis sum_mset_sum_list)
qed

lemma replay_log_eq:
  "replay_log db uid =
     sum_list (map signed_amount (filter (\<lambda>tx. user_id tx = uid) (transactions db)))"
  by (simp add: replay_log_def sum_list_sort_key)

lemma replay_log_unknown:
  "uid \<notin> set (map user_id (transactions db)) \<Longrightarrow> replay_log db uid = 0"
proof -
  assume "uid \<notin> set (map user_id (transactions db))"
  then have "filter (\<lambda>tx. user_id tx = uid) (transactions db) = []"
    by (auto simp: filter_empty_conv)
  then show ?thesis by (simp add: replay_log_eq)
qed

lemma distinct_ids_index:
  "distinct (map (id_user \<circ> snd) us) \<Longrightarrow> i < length us \<Longrightarrow> j < length us \<Longrightarrow>
     id_user (snd (us ! i)) = id_user (snd (us ! j)) \<Longrightarrow> i = j"
  using nth_eq_iff_index_eq [of "map (id_user \<circ> snd) us" i j] by simp

lemma ledger_consistent_iff:
  "ledger_consistent db =
     (distinct (map (id_user \<circ> snd) (users db))
      \<and> set (map user_id (transactions db)) \<subseteq> set (map (id_user \<circ> snd) (users db))
      \<and> (\<forall>uid. uid \<notin> set (map (id_user \<circ> snd) (users db)) \<longrightarrow>
             get_balance WalletDatabase_init uid = 0)
      \<and> (\<forall>j < length (users db).
             balance (snd (users db ! j)) =
               get_balance WalletDatabase_init (id_user (snd (users db ! j)))
               + replay_log db (id_user (snd (users db ! j)))))"
proof -
  have "(set (map (id_user \<circ> snd) (users WalletDatabase_init))
            \<subseteq> set (map (id_user \<circ> snd) (users db)))
      = (\<forall>uid. uid \<notin> set (map (id_user \<circ> snd) (users db)) \<longrightarrow>
             get_balance WalletDatabase_init uid = 0)"
    by (auto simp: WalletDatabase_init_def get_balance_def)
  then show ?thesis
    by (simp add: ledger_consistent_def list_all_length del: set_map map_map)
qed

lemma ledger_consistent_init: "ledger_consistent WalletDatabase_init"
  unfolding ledger_consistent_iff
proof (intro conjI allI impI)
  show "distinct (map (id_user \<circ> snd) (users WalletDatabase_init))"
    by (simp add: WalletDatabase_init_def)
  show "set (map user_id (transactions WalletDatabase_init))
      \<subseteq> set (map (id_user \<circ> snd) (users WalletDatabase_init))"
    by (simp add: WalletDatabase_init_def)
  show "get_balance WalletDatabase_init uid = 0"
    if "uid \<notin> set (map (id_user \<circ> snd) (users WalletDatabase_init))" for uid
    using that get_balance_loop_absent [of uid "map snd (users WalletDatabase_init)"]
    by (simp add: get_balance_def)
  show "balance (snd (users WalletDatabase_init ! j)) =
      get_balance WalletDatabase_init (id_user (snd (users WalletDatabase_init ! j)))
      + replay_log WalletDatabase_init (id_user (snd (users WalletDatabase_init ! j)))"
    if "j < length (users WalletDatabase_init)" for j
  proof -
    from that have "j = 0 \<or> j = 1" by (auto simp: WalletDatabase_init_def)
    then show ?thesis
      by (auto simp: WalletDatabase_init_def get_balance_def replay_log_eq)
  qed
qed

lemma ledger_consistent_register:
  assumes I: "ledger_consistent db"
    and fr: "i \<notin> set (map (id_user \<circ> snd) (users db))"
  shows "ledger_consistent (snd (register_user db e p n i))"
proof (cases "e \<in> set (map fst (users db))")
  case True
  then show ?thesis using I by (simp add: register_user_def)
next
  case False
  let ?u = "\<lparr>id_user = i, email = e, password_hash = p, full_name = n, balance = 0\<rparr>"
  let ?db' = "snd (register_user db e p n i)"
  have us: "users ?db' = users db @ [(e, ?u)]" using False by (simp add: register_user_users)
  have log: "transactions ?db' = transactions db" by simp
  have rp: "replay_log ?db' uid = replay_log db uid" for uid by (simp add: replay_log_eq)
  from I have d: "distinct (map (id_user \<circ> snd) (users db))"
    and sub: "set (map user_id (transactions db)) \<subseteq> set (map (id_user \<circ> snd) (users db))"
    and seed: "\<forall>uid. uid \<notin> set (map (id_user \<circ> snd) (users db)) \<longrightarrow>
             get_balance WalletDatabase_init uid = 0"
    and bal: "\<forall>j < length (users db).
             balance (snd (users db ! j)) =
               get_balance WalletDatabase_init (id_user (snd (users db ! j)))
               + replay_log db (id_user (snd (users db ! j)))"
    by (simp_all add: ledger_consistent_iff)
  have i0: "get_balance WalletDatabase_init i = 0" using seed fr by blast
  have i1: "replay_log db i = 0" using sub fr by (intro replay_log_unknown) blast
  show ?thesis
    unfolding ledger_consistent_iff
  proof (intro conjI allI impI)
    show "distinct (map (id_user \<circ> snd) (users ?db'))" using d fr by (simp add: us)
    show "set (map user_id (transactions ?db')) \<subseteq> set (map (id_user \<circ> snd) (users ?db'))"
      using sub by (auto simp: us)
    show "get_balance WalletDatabase_init uid = 0"
      if "uid \<notin> set (map (id_user \<circ> snd) (users ?db'))" for uid
      using that seed by (simp add: us)
    show "balance (snd (users ?db' ! j)) =
        get_balance WalletDatabase_init (id_user (snd (users ?db' ! j)))
        + replay_log ?db' (id_user (snd (users ?db' ! j)))"
      if "j < length (users ?db')" for j
    proof (cases "j < length (users db)")
      case True
      with bal show ?thesis by (simp add: us nth_append rp)
    next
      case False
      with that have "j = length (users db)" by (simp add: us)
      then show ?thesis using i0 i1 by (simp add: us rp)
    qed
  qed
qed

lemma ledger_consistent_add_money:
  assumes I: "ledger_consistent db"
    and ex: "exact_call db (AddMoney uid amt uuid now)"
    and fl: "float_round amt = amt"
  shows "ledger_consistent (snd (add_money db uid amt uuid now))"
proof (cases "uid \<in> set (map (id_user \<circ> snd) (users db))")
  case False
  then show ?thesis using I by (simp add: add_money_not_found)
next
  case True
  from I have d: "distinct (map (id_user \<circ> snd) (users db))"
    and sub: "set (map user_id (transactions db)) \<subseteq> set (map (id_user \<circ> snd) (users db))"
    and seed: "\<forall>uid. uid \<notin> set (map (id_user \<circ> snd) (users db)) \<longrightarrow>
             get_balance WalletDatabase_init uid = 0"
    and bal: "\<forall>j < length (users db).
             balance (snd (users db ! j)) =
               get_balance WalletDatabase_init (id_user (snd (users db ! j)))
               + replay_log db (id_user (snd (users db ! j)))"
    by (simp_all add: ledger_consistent_iff)
  from True show ?thesis
  proof (cases rule: add_money_found [where amt = amt and uuid = uuid and now = now])
    case (found i)
    let ?db' = "snd (add_money db uid amt uuid now)"
    have us: "users ?db' = add_balance (users db) i amt" using found(4) by simp
    have rp: "replay_log ?db' v = replay_log db v + (if v = uid then amt else 0)" for v
      using found(4) by (simp add: replay_log_eq signed_amount_def is_credit_def fl)
    show ?thesis
      unfolding ledger_consistent_iff
    proof (intro conjI allI impI)
      show "distinct (map (id_user \<circ> snd) (users ?db'))" using d by (simp add: us)
      show "set (map user_id (transactions ?db')) \<subseteq> set (map (id_user \<circ> snd) (users ?db'))"
        using sub True found(4) by (simp add: us del: set_map map_map)
      show "get_balance WalletDatabase_init v = 0"
        if "v \<notin> set (map (id_user \<circ> snd) (users ?db'))" for v
        using that seed by (simp add: us del: set_map map_map)
      show "balance (snd (users ?db' ! j)) =
          get_balance WalletDatabase_init (id_user (snd (users ?db' ! j)))
          + replay_log ?db' (id_user (snd (users ?db' ! j)))"
        if "j < length (users ?db')" for j
      proof -
        from that have j: "j < length (users db)" by (simp add: us)
        show ?thesis
        proof (cases "j = i")
          case True
          with j bal found(2) exact_call_add_money [OF ex found(5)] show ?thesis
            by (simp add: us nth_add_balance rp)
        next
          case False
          with distinct_ids_index [OF d j found(1)] found(2)
          have "id_user (snd (users db ! j)) \<noteq> uid" by auto
          with False j bal show ?thesis by (simp add: us nth_add_balance rp)
        qed
      qed
    qed
  qed
qed

lemma ledger_consistent_send_money:
  assumes I: "ledger_consistent db"
    and ex: "exact_call db (SendMoney sid rmail amt descr uuid1 now1 uuid2 now2)"
    and fl: "float_round amt = amt"
  shows "ledger_consistent (snd (send_money db sid rmail amt descr uuid1 now1 uuid2 now2))"
proof (cases "sid \<in> set (map (id_user \<circ> snd) (users db))")
  case False
  then show ?thesis using I by (simp add: send_money_no_sender)
next
  case s: True
  show ?thesis
  proof (cases "rmail \<in> set (map (email \<circ> snd) (users db))")
    case False
    with s show ?thesis using I by (simp add: send_money_no_recipient)
  next
    case True
    from I have d: "distinct (map (id_user \<circ> snd) (users db))"
      and sub: "set (map user_id (transactions db)) \<subseteq> set (map (id_user \<circ> snd) (users db))"
      and seed: "\<forall>uid. uid \<notin> set (map (id_user \<circ> snd) (users db)) \<longrightarrow>
               get_balance WalletDatabase_init uid = 0"
      and bal: "\<forall>j < length (users db).
               balance (snd (users db ! j)) =
                 get_balance WalletDatabase_init (id_user (snd (users db ! j)))
                 + replay_log db (id_user (snd (users db ! j)))"
      by (simp_all add: ledger_consistent_iff)
    from s True show ?thesis
    proof (cases rule: send_money_found [where amt = amt and descr = descr and
          ?uuid1.0 = uuid1 and ?now1.0 = now1 and ?uuid2.0 = uuid2 and ?now2.0 = now2])
      case (found s r)
      let ?db' = "snd (send_money db sid rmail amt descr uuid1 now1 uuid2 now2)"
      show ?thesis
      proof (cases "email (snd (users db ! s)) = rmail \<or> balance (snd (users db ! s)) < amt")
        case True
        with found(7) I show ?thesis by auto
      next
        case False
        then have ne: "email (snd (users db ! s)) \<noteq> rmail"
          and ge: "\<not> balance (snd (users db ! s)) < amt" by auto
        from ne found(4) have sr: "s \<noteq> r" by auto
        from exact_call_send_money [OF ex found(5) found(6) ne ge]
        have e1: "dec_round (balance (snd (users db ! s)) - amt) = balance (snd (users db ! s)) - amt"
          and e2: "dec_round (balance (snd (users db ! r)) + amt) = balance (snd (users db ! r)) + amt"
          by simp_all
        let ?rid = "id_user (snd (users db ! r))"
        have ids: "?rid \<noteq> sid"
          using distinct_ids_index [OF d found(2) found(1)] found(3) sr by auto
        have rin: "?rid \<in> set (map (id_user \<circ> snd) (users db))"
          using found(2) nth_mem [of r "map (id_user \<circ> snd) (users db)"] by (simp del: set_map)
        have us: "users ?db' = add_balance (add_balance (users db) s (- amt)) r amt"
          using found(7) ne ge by simp
        have rp: "replay_log ?db' v =
            replay_log db v + (if v = sid then - amt else 0) + (if v = ?rid then amt else 0)" for v
          using found(7) ne ge by (simp add: replay_log_eq signed_amount_def is_credit_def fl)
        show ?thesis
          unfolding ledger_consistent_iff
        proof (intro conjI allI impI)
          show "distinct (map (id_user \<circ> snd) (users ?db'))" using d by (simp add: us)
          show "set (map user_id (transactions ?db')) \<subseteq> set (map (id_user \<circ> snd) (users ?db'))"
            using sub s rin found(7) ne ge by (simp add: us del: set_map map_map)
          show "get_balance WalletDatabase_init v = 0"
            if "v \<notin> set (map (id_user \<circ> snd) (users ?db'))" for v
            using that seed by (simp add: us del: set_map map_map)
          show "balance (snd (users ?db' ! j)) =
              get_balance WalletDatabase_init (id_user (snd (users ?db' ! j)))
              + replay_log ?db' (id_user (snd (users ?db' ! j)))"
            if "j < length (users ?db')" for j
          proof -
            from that have j: "j < length (users db)" by (simp add: us)
            consider "j = s" | "j = r" | "j \<noteq> s" "j \<noteq> r" by blast
            then show ?thesis
            proof cases
              case 1
              with j bal found(3) sr ids e1 show ?thesis by (simp add: us nth_add_balance rp)
            next
              case 2
              with j bal found(3) sr ids e2 show ?thesis by (simp add: us nth_add_balance rp)
            next
              case 3
              from 3(1) distinct_ids_index [OF d j found(1)] found(3)
              have a: "id_user (snd (users db ! j)) \<noteq> sid" by auto
              from 3(2) distinct_ids_index [OF d j found(2)]
              have b: "id_user (snd (users db ! j)) \<noteq> ?rid" by auto
              from 3 a b j bal show ?thesis by (simp add: us nth_add_balance rp)
            qed
          qed
        qed
      qed
    qed
  qed
qed

lemma ledger_consistent_run:
  "ledger_consistent db \<Longrightarrow> fresh_ids db ops \<Longrightarrow> exact_run db ops \<Longrightarrow>
     amounts_all is_double ops \<Longrightarrow> ledger_consistent (run db ops)"
proof (induction ops arbitrary: db)
  case Nil
  then show ?case by simp
next
  case (Cons x xs)
  have "ledger_consistent (apply_op db x)"
  proof (cases x)
    case (Register e p n i)
    with Cons.prems show ?thesis by (simp add: ledger_consistent_register)
  next
    case (AddMoney uid amt uuid now)
    with Cons.prems show ?thesis by (simp add: ledger_consistent_add_money is_double_def)
  next
    case (SendMoney sid rmail amt descr uuid1 now1 uuid2 now2)
    with Cons.prems show ?thesis by (simp add: ledger_consistent_send_money is_double_def)
  qed
  with Cons show ?case by simp
qed

text \<open>
  Claim C5, as the code has it. In every database reached from the initial one by calls
  whose \<open>register_user\<close> ids are new, none of which has a balance rounded by the decimal
  context, and whose amounts are values of finite doubles, so that \<open>float(amount)\<close> is
  the amount, the balance of every account is the balance \<open>__init__\<close> gave it (1000.00
  and 500.00 for the two accounts made there, zero for an account registered later) plus
  the replay of its log entries in time stamp order, credits added and debits subtracted.
  The replay adds the values of the logged floats exactly. An amount such as 0.1, which is
  not the value of a double, is logged as the double nearest to it, and the replay then
  differs from the balance.
\<close>

theorem balance_reconstruction:
  assumes "fresh_ids WalletDatabase_init ops" and "exact_run WalletDatabase_init ops"
    and "amounts_all is_double ops"
  shows "\<forall>u \<in> set (map snd (users (run WalletDatabase_init ops))).
           balance u = get_balance WalletDatabase_init (id_user u)
                       + replay_log (run WalletDatabase_init ops) (id_user u)"
proof -
  from ledger_consistent_run [OF ledger_consistent_init assms(1) assms(2) assms(3)]
  have "\<forall>j < length (users (run WalletDatabase_init ops)).
      balance (snd (users (run WalletDatabase_init ops) ! j)) =
        get_balance WalletDatabase_init (id_user (snd (users (run WalletDatabase_init ops) ! j)))
        + replay_log (run WalletDatabase_init ops)
            (id_user (snd (users (run WalletDatabase_init ops) ! j)))"
    by (simp add: ledger_consistent_iff)
  then show ?thesis by (simp add: all_set_conv_all_nth)
qed

theorem balance_reconstruction_witness:
  "fresh_ids WalletDatabase_init
     [Register ''carol@example.com'' ''h'' ''Carol'' ''3'',
      AddMoney ''1'' 50 ''t1'' ''2024-01-01T10:00:00'',
      SendMoney ''1'' ''carol@example.com'' 200 None ''t2'' ''2024-01-01T10:00:01''
        ''t3'' ''2024-01-01T10:00:01'']
   \<and> exact_run WalletDatabase_init
     [Register ''carol@example.com'' ''h'' ''Carol'' ''3'',
      AddMoney ''1'' 50 ''t1'' ''2024-01-01T10:00:00'',
      SendMoney ''1'' ''carol@example.com'' 200 None ''t2'' ''2024-01-01T10:00:01''
        ''t3'' ''2024-01-01T10:00:01'']
   \<and> amounts_all is_double
     [Register ''carol@example.com'' ''h'' ''Carol'' ''3'',
      AddMoney ''1'' 50 ''t1'' ''2024-01-01T10:00:00'',
      SendMoney ''1'' ''carol@example.com'' 200 None ''t2'' ''2024-01-01T10:00:01''
        ''t3'' ''2024-01-01T10:00:01'']
   \<and> list_all (\<lambda>u. balance u = get_balance WalletDatabase_init (id_user u)
           + replay_log (run WalletDatabase_init
               [Register ''carol@example.com'' ''h'' ''Carol'' ''3'',
                AddMoney ''1'' 50 ''t1'' ''2024-01-01T10:00:00'',
                SendMoney ''1'' ''carol@example.com'' 200 None ''t2'' ''2024-01-01T10:00:01''
                  ''t3'' ''2024-01-01T10:00:01'']) (id_user u))
       (map snd (users (run WalletDatabase_init
               [Register ''carol@example.com'' ''h'' ''Carol'' ''3'',
                AddMoney ''1'' 50 ''t1'' ''2024-01-01T10:00:00'',
                SendMoney ''1'' ''carol@example.com'' 200 None ''t2'' ''2024-01-01T10:00:01''
                  ''t3'' ''2024-01-01T10:00:01''])))
   \<and> map (balance \<circ> snd) (users (run WalletDatabase_init
               [Register ''carol@example.com'' ''h'' ''Carol'' ''3'',
                AddMoney ''1'' 50 ''t1'' ''2024-01-01T10:00:00'',
                SendMoney ''1'' ''carol@example.com'' 200 None ''t2'' ''2024-01-01T10:00:01''
                  ''t3'' ''2024-01-01T10:00:01''])) = [850, 500, 200]
   \<and> map (\<lambda>tx. (user_id tx, signed_amount tx)) (transactions (run WalletDatabase_init
               [Register ''carol@example.com'' ''h'' ''Carol'' ''3'',
                AddMoney ''1'' 50 ''t1'' ''2024-01-01T10:00:00'',
                SendMoney ''1'' ''carol@example.com'' 200 None ''t2'' ''2024-01-01T10:00:01''
                  ''t3'' ''2024-01-01T10:00:01''])) = [(''1'', 50), (''1'', - 200), (''3'', 200)]"
proof -
  let ?ops = "[Register ''carol@example.com'' ''h'' ''Carol'' ''3'',
      AddMoney ''1'' 50 ''t1'' ''2024-01-01T10:00:00'',
      SendMoney ''1'' ''carol@example.com'' 200 None ''t2'' ''2024-01-01T10:00:01''
        ''t3'' ''2024-01-01T10:00:01'']"
  have f1: "float_round 50 = 50" by code_simp
  have f2: "float_round 200 = 200" by code_simp
  have h: "fresh_ids WalletDatabase_init ?ops"
    by (simp add: WalletDatabase_init_def register_user_def add_money_def add_balance_def Let_def)
  have h2: "exact_run WalletDatabase_init ?ops"
    by (simp add: WalletDatabase_init_def register_user_def add_money_def add_balance_def
        unrounded_def Let_def)
  have h3: "amounts_all is_double ?ops"
    by (simp add: is_double_def finite_float_def f1 f2)
  from balance_reconstruction [OF h h2 h3]
  have a: "list_all (\<lambda>u. balance u = get_balance WalletDatabase_init (id_user u)
           + replay_log (run WalletDatabase_init ?ops) (id_user u))
       (map snd (users (run WalletDatabase_init ?ops)))"
    unfolding list_all_iff by blast
  have b: "map (balance \<circ> snd) (users (run WalletDatabase_init ?ops)) = [850, 500, 200]"
    by (simp add: WalletDatabase_init_def register_user_def add_money_def send_money_def
        add_balance_def Let_def)
  have c: "map (\<lambda>tx. (user_id tx, signed_amount tx)) (transactions (run WalletDatabase_init ?ops))
      = [(''1'', 50), (''1'', - 200), (''3'', 200)]"
    by (simp add: WalletDatabase_init_def register_user_def add_money_def send_money_def
        add_balance_def signed_amount_def is_credit_def Let_def f1 f2)
  from h h2 h3 a b c show ?thesis by (intro conjI)
qed

text \<open>
  The balance \<open>__init__\<close> gives an account has no entry in the log: in the initial database
  user \<open>'1'\<close> has the balance 1000 and the replay of the log gives 0.
\<close>

theorem seeded_balance_not_in_log:
  "get_balance WalletDatabase_init ''1'' = 1000 \<and> replay_log WalletDatabase_init ''1'' = 0"
  by (simp add: get_balance_def replay_log_def WalletDatabase_init_def)

subsection \<open>The amounts in the log\<close>

lemma log_amounts_run:
  "\<forall>tx \<in> set (transactions (run db ops)).
     tx \<in> set (transactions db)
     \<or> (\<exists>x \<in> set ops. \<exists>a. op_amount x = Some a \<and> amount tx = PyFloat a)"
proof (induction ops arbitrary: db)
  case Nil
  then show ?case by simp
next
  case (Cons x xs)
  show ?case
  proof
    fix tx
    assume "tx \<in> set (transactions (run db (x # xs)))"
    then have "tx \<in> set (transactions (run (apply_op db x) xs))" by simp
    with Cons.IH [of "apply_op db x"]
    consider "tx \<in> set (transactions (apply_op db x))"
      | "\<exists>y \<in> set xs. \<exists>a. op_amount y = Some a \<and> amount tx = PyFloat a" by blast
    then show "tx \<in> set (transactions db)
        \<or> (\<exists>y \<in> set (x # xs). \<exists>a. op_amount y = Some a \<and> amount tx = PyFloat a)"
    proof cases
      case 1
      with apply_op_log [of db x] show ?thesis by (elim disjE exE conjE) auto
    next
      case 2
      then show ?thesis by auto
    qed
  qed
qed

lemma log_amounts_init:
  assumes "tx \<in> set (transactions (run WalletDatabase_init ops))"
  obtains x a where "x \<in> set ops" "op_amount x = Some a" "amount tx = PyFloat a"
  using assms log_amounts_run [of WalletDatabase_init ops]
  by (auto simp: WalletDatabase_init_def)

text \<open>
  Claim C6, as the code has it. The balances are decimals; the amount of an entry of the
  log is a Python float, a binary double. Every entry a call appends stores
  \<open>float(amount)\<close>, unchecked and whatever its sign: after a sequence of calls from the
  initial database, with amounts in the range of a double, the amount of each entry of the
  log is the double nearest to the amount of one of the calls. It is positive when the
  amounts of the calls are at least the smallest positive double, which every positive float
  is; the type of the entry, not a sign, tells a credit from a debit. It is the amount of
  the call itself when the amounts of the calls are values of doubles.
\<close>

theorem logged_amounts:
  assumes "amounts_all finite_float ops"
  shows "(\<forall>tx \<in> set (transactions (run WalletDatabase_init ops)).
            \<exists>x \<in> set ops. \<exists>a. op_amount x = Some a \<and> finite_float a
                \<and> float_value (amount tx) = float_round a)
     \<and> (amounts_all (\<lambda>a. min_float \<le> a) ops \<longrightarrow>
          (\<forall>tx \<in> set (transactions (run WalletDatabase_init ops)). 0 < float_value (amount tx)))
     \<and> (amounts_all is_double ops \<longrightarrow>
          (\<forall>tx \<in> set (transactions (run WalletDatabase_init ops)).
             \<exists>x \<in> set ops. op_amount x = Some (float_value (amount tx))))"
proof (intro conjI impI ballI)
  fix tx
  assume "tx \<in> set (transactions (run WalletDatabase_init ops))"
  then obtain x a where x: "x \<in> set ops" "op_amount x = Some a" "amount tx = PyFloat a"
    by (rule log_amounts_init)
  from assms x(1) x(2) have "finite_float a" by (rule amounts_allD)
  with x show "\<exists>x \<in> set ops. \<exists>a. op_amount x = Some a \<and> finite_float a
      \<and> float_value (amount tx) = float_round a"
    by auto
next
  fix tx
  assume p: "amounts_all (\<lambda>a. min_float \<le> a) ops"
    and "tx \<in> set (transactions (run WalletDatabase_init ops))"
  then obtain x a where x: "x \<in> set ops" "op_amount x = Some a" "amount tx = PyFloat a"
    by (auto elim: log_amounts_init)
  from p x(1) x(2) have "min_float \<le> a" by (rule amounts_allD)
  then have "0 < float_round a" by (rule float_round_pos)
  with x(3) show "0 < float_value (amount tx)" by simp
next
  fix tx
  assume p: "amounts_all is_double ops"
    and "tx \<in> set (transactions (run WalletDatabase_init ops))"
  then obtain x a where x: "x \<in> set ops" "op_amount x = Some a" "amount tx = PyFloat a"
    by (auto elim: log_amounts_init)
  from p x(1) x(2) have "is_double a" by (rule amounts_allD)
  then have "float_round a = a" by (simp add: is_double_def)
  with x show "\<exists>x \<in> set ops. op_amount x = Some (float_value (amount tx))" by auto
qed

theorem logged_amounts_witness:
  "amounts_all finite_float [AddMoney ''1'' 50 ''t1'' ''2024-01-01T10:00:00'',
       SendMoney ''1'' ''bob@example.com'' 200 None ''t2'' ''2024-01-01T10:00:01''
         ''t3'' ''2024-01-01T10:00:01'']
   \<and> amounts_all (\<lambda>a. min_float \<le> a) [AddMoney ''1'' 50 ''t1'' ''2024-01-01T10:00:00'',
       SendMoney ''1'' ''bob@example.com'' 200 None ''t2'' ''2024-01-01T10:00:01''
         ''t3'' ''2024-01-01T10:00:01'']
   \<and> amounts_all is_double [AddMoney ''1'' 50 ''t1'' ''2024-01-01T10:00:00'',
       SendMoney ''1'' ''bob@example.com'' 200 None ''t2'' ''2024-01-01T10:00:01''
         ''t3'' ''2024-01-01T10:00:01'']
   \<and> list_all (\<lambda>tx. 0 < float_value (amount tx)) (transactions (run WalletDatabase_init
       [AddMoney ''1'' 50 ''t1'' ''2024-01-01T10:00:00'',
        SendMoney ''1'' ''bob@example.com'' 200 None ''t2'' ''2024-01-01T10:00:01''
         ''t3'' ''2024-01-01T10:00:01'']))
   \<and> map (float_value \<circ> amount) (transactions (run WalletDatabase_init
       [AddMoney ''1'' 50 ''t1'' ''2024-01-01T10:00:00'',
        SendMoney ''1'' ''bob@example.com'' 200 None ''t2'' ''2024-01-01T10:00:01''
         ''t3'' ''2024-01-01T10:00:01''])) = [50, 200, 200]"
proof -
  let ?ops = "[AddMoney ''1'' 50 ''t1'' ''2024-01-01T10:00:00'',
       SendMoney ''1'' ''bob@example.com'' 200 None ''t2'' ''2024-01-01T10:00:01''
         ''t3'' ''2024-01-01T10:00:01'']"
  have f1: "float_round 50 = 50" by code_simp
  have f2: "float_round 200 = 200" by code_simp
  have h1: "amounts_all finite_float ?ops" by (simp add: finite_float_def f1 f2)
  have h2: "amounts_all (\<lambda>a. min_float \<le> a) ?ops" by (simp add: min_float_def pow2_def)
  have h3: "amounts_all is_double ?ops" by (simp add: is_double_def finite_float_def f1 f2)
  from logged_amounts [OF h1] h2
  have a: "list_all (\<lambda>tx. 0 < float_value (amount tx)) (transactions (run WalletDatabase_init ?ops))"
    unfolding list_all_iff by blast
  have b: "map (float_value \<circ> amount) (transactions (run WalletDatabase_init ?ops)) = [50, 200, 200]"
    by (simp add: add_money_def send_money_def WalletDatabase_init_def add_balance_def Let_def
        f1 f2)
  from h1 h2 h3 a b show ?thesis by (intro conjI)
qed

text \<open>
  \<open>add_money\<close> with the amount \<open>-5\<close> appends an entry whose amount is the float
  \<open>-5.0\<close>, a negative amount. \<open>add_money\<close> with the amount \<open>0.1\<close> adds the decimal
  \<open>0.1\<close> to the balance and appends an entry whose amount is the float \<open>0.1\<close>, a
  binary double: its value is \<open>3602879701896397 / 2 ^ 55\<close>, not one tenth.
\<close>

theorem add_money_logs_negative_float:
  "map (float_value \<circ> amount) (transactions (snd (add_money WalletDatabase_init ''1'' (- 5) ''t1''
       ''2024-01-01T10:00:00''))) = [- 5]
   \<and> get_balance (snd (add_money WalletDatabase_init ''1'' (1 / 10) ''t1''
       ''2024-01-01T10:00:00'')) ''1'' = 10001 / 10
   \<and> map (float_value \<circ> amount) (transactions (snd (add_money WalletDatabase_init ''1'' (1 / 10) ''t1''
       ''2024-01-01T10:00:00''))) = [3602879701896397 / 36028797018963968]
   \<and> (3602879701896397 / 36028797018963968 :: rat) \<noteq> 1 / 10"
proof -
  have f1: "float_round (- 5) = - 5" by code_simp
  have f2: "float_round (1 / 10) = 3602879701896397 / 36028797018963968" by code_simp
  have d: "dec_round (10001 / 10) = 10001 / 10" by code_simp
  show ?thesis
    by (simp add: add_money_def WalletDatabase_init_def add_balance_def get_balance_def Let_def
        f1 f2 d)
qed

subsection \<open>The order of the history\<close>

lemma mset_sort_reverse: "mset (sort_reverse key xs) = mset xs"
  by (simp add: sort_reverse_def)

lemma sorted_sort_reverse: "sorted_wrt (\<lambda>a b. key b \<le> key a) (sort_reverse key xs)"
proof -
  have "sorted (map key (sort_key key (rev xs)))" by (rule sorted_sort_key)
  then have "sorted_wrt (\<lambda>a b. key a \<le> key b) (sort_key key (rev xs))"
    by (simp add: sorted_map)
  then show ?thesis by (simp add: sort_reverse_def sorted_wrt_rev)
qed

lemma stable_sort_reverse:
  "filter (\<lambda>x. key x = k) (sort_reverse key xs) = filter (\<lambda>x. key x = k) xs"
  by (simp add: sort_reverse_def rev_filter [symmetric] sort_key_stable)

text \<open>
  Claim C7, as the code has it. \<open>get_transactions\<close> returns the first entries of a list
  \<open>S\<close> that holds exactly the entries of the account, each as often as the log has it, with
  the newest time stamp first; entries with equal time stamps stand in \<open>S\<close> in the order of
  the log, the one inserted earlier first, since the sort is stable. The result is the
  slice \<open>S[:limit]\<close>: the first \<open>limit\<close> entries of \<open>S\<close> for a limit that is not
  negative, the first 10 when no limit is given.
\<close>

theorem get_transactions_order:
  "\<exists>S. mset S = mset (filter (\<lambda>tx. user_id tx = uid) (transactions db))
     \<and> sorted_wrt (\<lambda>a b. timestamp b \<le> timestamp a) S
     \<and> (\<forall>ts. filter (\<lambda>tx. timestamp tx = ts) S =
              filter (\<lambda>tx. user_id tx = uid \<and> timestamp tx = ts) (transactions db))
     \<and> get_transactions db uid limit = slice_to limit S
     \<and> (0 \<le> limit \<longrightarrow> get_transactions db uid limit = take (nat limit) S)
     \<and> get_transactions_default db uid = take 10 S"
proof (intro exI [of _ "sort_reverse timestamp (filter (\<lambda>tx. user_id tx = uid) (transactions db))"]
    conjI allI impI)
  show "mset (sort_reverse timestamp (filter (\<lambda>tx. user_id tx = uid) (transactions db))) =
      mset (filter (\<lambda>tx. user_id tx = uid) (transactions db))"
    by (rule mset_sort_reverse)
  show "sorted_wrt (\<lambda>a b. timestamp b \<le> timestamp a)
      (sort_reverse timestamp (filter (\<lambda>tx. user_id tx = uid) (transactions db)))"
    by (rule sorted_sort_reverse)
  show "filter (\<lambda>tx. timestamp tx = ts)
        (sort_reverse timestamp (filter (\<lambda>tx. user_id tx = uid) (transactions db))) =
      filter (\<lambda>tx. user_id tx = uid \<and> timestamp tx = ts) (transactions db)" for ts
    by (simp add: stable_sort_reverse conj_commute)
  show "get_transactions db uid limit =
      slice_to limit (sort_reverse timestamp (filter (\<lambda>tx. user_id tx = uid) (transactions db)))"
    by (simp add: get_transactions_def)
  show "get_transactions db uid limit =
      take (nat limit) (sort_reverse timestamp (filter (\<lambda>tx. user_id tx = uid) (transactions db)))"
    if "0 \<le> limit"
    using that by (simp add: get_transactions_def slice_to_def)
  show "get_transactions_default db uid =
      take 10 (sort_reverse timestamp (filter (\<lambda>tx. user_id tx = uid) (transactions db)))"
    by (simp add: get_transactions_default_def get_transactions_def slice_to_def)
qed

theorem get_transactions_order_witness:
  "(0::int) \<le> 1
   \<and> (\<exists>S. mset S = mset (filter (\<lambda>tx. user_id tx = ''1'') (transactions (run WalletDatabase_init
            [AddMoney ''1'' 10 ''t1'' ''2024-01-01T10:00:00'',
             AddMoney ''1'' 20 ''t2'' ''2024-01-01T10:00:01''])))
        \<and> sorted_wrt (\<lambda>a b. timestamp b \<le> timestamp a) S
        \<and> get_transactions (run WalletDatabase_init
            [AddMoney ''1'' 10 ''t1'' ''2024-01-01T10:00:00'',
             AddMoney ''1'' 20 ''t2'' ''2024-01-01T10:00:01'']) ''1'' 1 = take (nat 1) S
        \<and> get_transactions_default (run WalletDatabase_init
            [AddMoney ''1'' 10 ''t1'' ''2024-01-01T10:00:00'',
             AddMoney ''1'' 20 ''t2'' ''2024-01-01T10:00:01'']) ''1'' = take 10 S)
   \<and> map id_tx (get_transactions (run WalletDatabase_init
            [AddMoney ''1'' 10 ''t1'' ''2024-01-01T10:00:00'',
             AddMoney ''1'' 20 ''t2'' ''2024-01-01T10:00:01'']) ''1'' 1) = [''t2'']"
proof -
  let ?db = "run WalletDatabase_init
            [AddMoney ''1'' 10 ''t1'' ''2024-01-01T10:00:00'',
             AddMoney ''1'' 20 ''t2'' ''2024-01-01T10:00:01'']"
  have h: "(0::int) \<le> 1" by simp
  from get_transactions_order [of "''1''" ?db 1] h
  have a: "\<exists>S. mset S = mset (filter (\<lambda>tx. user_id tx = ''1'') (transactions ?db))
        \<and> sorted_wrt (\<lambda>a b. timestamp b \<le> timestamp a) S
        \<and> get_transactions ?db ''1'' 1 = take (nat 1) S
        \<and> get_transactions_default ?db ''1'' = take 10 S"
    by blast
  have b: "map id_tx (get_transactions ?db ''1'' 1) = [''t2'']"
    by (simp add: get_transactions_def sort_reverse_def slice_to_def add_money_def
      WalletDatabase_init_def add_balance_def Let_def)
  from h a b show ?thesis by (intro conjI)
qed

text \<open>
  Two deposits of user \<open>'1'\<close> with the same time stamp come back in the order they were
  made: the entry inserted earlier, \<open>t1\<close>, is first.
\<close>

theorem get_transactions_ties_keep_insertion_order:
  "map id_tx (get_transactions (run WalletDatabase_init
      [AddMoney ''1'' 10 ''t1'' ''2024-01-01T10:00:00'',
       AddMoney ''1'' 20 ''t2'' ''2024-01-01T10:00:00'']) ''1'' 10) = [''t1'', ''t2'']"
  by (simp add: get_transactions_def sort_reverse_def slice_to_def add_money_def
      WalletDatabase_init_def add_balance_def Let_def)

subsection \<open>The two entries of a transfer\<close>

text \<open>
  Claim C8. A call of \<open>send_money\<close> that succeeds appends exactly two entries to the log,
  first a \<open>transfer_out\<close> entry for the sender, which is the entry the call returns, then a
  \<open>transfer_in\<close> entry for the recipient. Both carry the amount of the call; the first
  names the recipient's address in \<open>recipient_email\<close>, the second the sender's address in
  \<open>sender_email\<close>. No call appends one without the other: a call of any of the three
  methods appends nothing, or one \<open>credit\<close> entry, or such a pair.
\<close>

theorem send_money_appends_pair:
  "(\<forall>b stx db'.
      send_money db sid rmail amt descr uuid1 now1 uuid2 now2 = (Inr (b, stx), db') \<longrightarrow>
      (\<exists>sender recipient rtx.
          sender \<in> set (map snd (users db)) \<and> recipient \<in> set (map snd (users db)) \<and>
          id_user sender = sid \<and> email recipient = rmail \<and> email sender \<noteq> email recipient \<and>
          transactions db' = transactions db @ [stx, rtx] \<and>
          type_tx stx = transfer_out \<and> user_id stx = id_user sender \<and>
          recipient_email stx = Some (email recipient) \<and>
          type_tx rtx = transfer_in \<and> user_id rtx = id_user recipient \<and>
          sender_email rtx = Some (email sender) \<and>
          amount stx = PyFloat amt \<and> amount rtx = PyFloat amt))
   \<and> (transactions (apply_op db x) = transactions db
      \<or> (\<exists>c. transactions (apply_op db x) = transactions db @ [c] \<and> type_tx c = credit)
      \<or> (\<exists>out inn. transactions (apply_op db x) = transactions db @ [out, inn]
            \<and> type_tx out = transfer_out \<and> type_tx inn = transfer_in))"
proof (intro conjI allI impI)
  show "transactions (apply_op db x) = transactions db
      \<or> (\<exists>c. transactions (apply_op db x) = transactions db @ [c] \<and> type_tx c = credit)
      \<or> (\<exists>out inn. transactions (apply_op db x) = transactions db @ [out, inn]
            \<and> type_tx out = transfer_out \<and> type_tx inn = transfer_in)"
    using apply_op_log [of db x] by blast
next
  fix b stx db'
  assume ok: "send_money db sid rmail amt descr uuid1 now1 uuid2 now2 = (Inr (b, stx), db')"
  have s: "sid \<in> set (map (id_user \<circ> snd) (users db))"
    using ok send_money_no_sender [of sid db rmail amt descr uuid1 now1 uuid2 now2] by auto
  have r: "rmail \<in> set (map (email \<circ> snd) (users db))"
    using ok s send_money_no_recipient [of sid db rmail amt descr uuid1 now1 uuid2 now2] by auto
  from s r show "\<exists>sender recipient rtx.
          sender \<in> set (map snd (users db)) \<and> recipient \<in> set (map snd (users db)) \<and>
          id_user sender = sid \<and> email recipient = rmail \<and> email sender \<noteq> email recipient \<and>
          transactions db' = transactions db @ [stx, rtx] \<and>
          type_tx stx = transfer_out \<and> user_id stx = id_user sender \<and>
          recipient_email stx = Some (email recipient) \<and>
          type_tx rtx = transfer_in \<and> user_id rtx = id_user recipient \<and>
          sender_email rtx = Some (email sender) \<and>
          amount stx = PyFloat amt \<and> amount rtx = PyFloat amt"
  proof (cases rule: send_money_found [where amt = amt and descr = descr and
          ?uuid1.0 = uuid1 and ?now1.0 = now1 and ?uuid2.0 = uuid2 and ?now2.0 = now2])
    case (found s r)
    have ms: "snd (users db ! s) \<in> set (map snd (users db))"
      and mr: "snd (users db ! r) \<in> set (map snd (users db))"
      using found(1,2) nth_mem [of s "map snd (users db)"] nth_mem [of r "map snd (users db)"]
      by (simp_all del: set_map)
    from found(7) ok have ne: "email (snd (users db ! s)) \<noteq> rmail"
      and ge: "\<not> balance (snd (users db ! s)) < amt"
      by (auto split: if_splits)
    from found(7) ok ne ge have
      stx: "stx = \<lparr>id_tx = uuid1, user_id = sid, type_tx = transfer_out, amount = PyFloat amt,
              description = description_or descr (''Sent to '' @ rmail),
              recipient_email = Some rmail, sender_email = None, timestamp = now1,
              balance_after = PyFloat (dec_round (balance (snd (users db ! s)) - amt))\<rparr>"
      and log: "transactions db' = transactions db @
              [stx,
               \<lparr>id_tx = uuid2, user_id = id_user (snd (users db ! r)), type_tx = transfer_in,
                amount = PyFloat amt,
                description = ''Received from '' @ email (snd (users db ! s)),
                recipient_email = None, sender_email = Some (email (snd (users db ! s))),
                timestamp = now2,
                balance_after = PyFloat (dec_round (balance (snd (users db ! r)) + amt))\<rparr>]"
      by auto
    show ?thesis
      apply (rule exI [of _ "snd (users db ! s)"])
      apply (rule exI [of _ "snd (users db ! r)"])
      apply (rule exI [of _ "\<lparr>id_tx = uuid2, user_id = id_user (snd (users db ! r)), type_tx = transfer_in,
                amount = PyFloat amt,
                description = ''Received from '' @ email (snd (users db ! s)),
                recipient_email = None, sender_email = Some (email (snd (users db ! s))),
                timestamp = now2,
                balance_after = PyFloat (dec_round (balance (snd (users db ! r)) + amt))\<rparr>"])
      using ms mr found(3,4) ne log stx by simp
  qed
qed

theorem send_money_appends_pair_witness:
  "(let stx = \<lparr>id_tx = ''t1'', user_id = ''1'', type_tx = transfer_out, amount = PyFloat 200,
                description = ''rent'', recipient_email = Some ''bob@example.com'',
                sender_email = None, timestamp = ''2024-01-01T10:00:00'',
                balance_after = PyFloat 800\<rparr>;
        db' = snd (send_money WalletDatabase_init ''1'' ''bob@example.com'' 200 (Some ''rent'')
                ''t1'' ''2024-01-01T10:00:00'' ''t2'' ''2024-01-01T10:00:01'')
    in send_money WalletDatabase_init ''1'' ''bob@example.com'' 200 (Some ''rent'')
         ''t1'' ''2024-01-01T10:00:00'' ''t2'' ''2024-01-01T10:00:01'' = (Inr (800, stx), db')
       \<and> (\<exists>sender recipient rtx.
          sender \<in> set (map snd (users WalletDatabase_init)) \<and>
          recipient \<in> set (map snd (users WalletDatabase_init)) \<and>
          id_user sender = ''1'' \<and> email recipient = ''bob@example.com'' \<and>
          email sender \<noteq> email recipient \<and>
          transactions db' = transactions WalletDatabase_init @ [stx, rtx] \<and>
          type_tx stx = transfer_out \<and> user_id stx = id_user sender \<and>
          recipient_email stx = Some (email recipient) \<and>
          type_tx rtx = transfer_in \<and> user_id rtx = id_user recipient \<and>
          sender_email rtx = Some (email sender) \<and>
          amount stx = PyFloat 200 \<and> amount rtx = PyFloat 200))"
proof -
  let ?stx = "\<lparr>id_tx = ''t1'', user_id = ''1'', type_tx = transfer_out, amount = PyFloat 200,
                description = ''rent'', recipient_email = Some ''bob@example.com'',
                sender_email = None, timestamp = ''2024-01-01T10:00:00'',
                balance_after = PyFloat 800\<rparr>"
  let ?db' = "snd (send_money WalletDatabase_init ''1'' ''bob@example.com'' 200 (Some ''rent'')
                ''t1'' ''2024-01-01T10:00:00'' ''t2'' ''2024-01-01T10:00:01'')"
  have h: "send_money WalletDatabase_init ''1'' ''bob@example.com'' 200 (Some ''rent'')
         ''t1'' ''2024-01-01T10:00:00'' ''t2'' ''2024-01-01T10:00:01'' = (Inr (800, ?stx), ?db')"
    by (simp add: send_money_def WalletDatabase_init_def add_balance_def description_or_def Let_def)
  from h send_money_appends_pair [THEN conjunct1, rule_format, OF h]
  show ?thesis unfolding Let_def by (rule conjI)
qed

subsection \<open>The history of an unknown account\<close>

lemma slice_to_Nil [simp]: "slice_to limit [] = []"
  by (simp add: slice_to_def)

text \<open>
  Claim C9, as the code has it. In every database reached from the initial one, for a
  \<open>user_id\<close> that no account has, \<open>get_transactions\<close> returns the empty list,
  whatever the limit: every entry of the log belongs to an account of the store.
\<close>

theorem get_transactions_unknown_account:
  assumes "uid \<notin> set (map (id_user \<circ> snd) (users (run WalletDatabase_init ops)))"
  shows "get_transactions (run WalletDatabase_init ops) uid limit = []"
proof -
  have "set (map user_id (transactions (run WalletDatabase_init ops)))
      \<subseteq> set (map (id_user \<circ> snd) (users (run WalletDatabase_init ops)))"
    by (rule log_ids_run) (simp add: WalletDatabase_init_def)
  with assms have "uid \<notin> set (map user_id (transactions (run WalletDatabase_init ops)))"
    by blast
  then have "filter (\<lambda>tx. user_id tx = uid) (transactions (run WalletDatabase_init ops)) = []"
    by (auto simp: filter_empty_conv)
  then show ?thesis by (simp add: get_transactions_def sort_reverse_def)
qed

theorem get_transactions_unknown_account_witness:
  "''3'' \<notin> set (map (id_user \<circ> snd) (users (run WalletDatabase_init
       [AddMoney ''1'' 50 ''t1'' ''2024-01-01T10:00:00''])))
   \<and> get_transactions (run WalletDatabase_init
       [AddMoney ''1'' 50 ''t1'' ''2024-01-01T10:00:00'']) ''3'' 10 = []"
proof -
  have h: "''3'' \<notin> set (map (id_user \<circ> snd) (users (run WalletDatabase_init
       [AddMoney ''1'' 50 ''t1'' ''2024-01-01T10:00:00''])))"
    by (simp add: add_money_def WalletDatabase_init_def add_balance_def Let_def)
  from h get_transactions_unknown_account [OF h, of 10] show ?thesis by (rule conjI)
qed

text \<open>
  \<open>get_transactions\<close> has no error result: on the initial database, for the id \<open>'3'\<close>
  that no account has, it returns the empty list.
\<close>

theorem get_transactions_unknown_account_no_error:
  "''3'' \<notin> set (map (id_user \<circ> snd) (users WalletDatabase_init))
   \<and> get_transactions WalletDatabase_init ''3'' 10 = []
   \<and> get_transactions_default WalletDatabase_init ''3'' = []"
  by (simp add: WalletDatabase_init_def get_transactions_def get_transactions_default_def
      sort_reverse_def slice_to_def)

subsection \<open>The balance of a missing account\<close>

text \<open>
  Claim C10. For a \<open>user_id\<close> that no account of the store has, \<open>get_balance\<close> returns
  \<open>Decimal('0.00')\<close> and reports no error. The answer is the one an account with balance
  zero gets: registering an account under that id, which starts at zero, leaves the answer
  as it was. (\<open>Decimal('0.00')\<close> is modelled by its value, \<open>0\<close>.)
\<close>

theorem get_balance_missing_account:
  assumes "uid \<notin> set (map (id_user \<circ> snd) (users db))"
  shows "get_balance db uid = 0
     \<and> get_balance (snd (register_user db email' pw_hash full_name' uid)) uid = get_balance db uid"
proof -
  have a: "uid \<notin> set (map id_user (map snd (users db)))" using assms by simp
  have b: "get_balance db uid = 0"
    unfolding get_balance_def by (rule get_balance_loop_absent [OF a])
  have "get_balance (snd (register_user db email' pw_hash full_name' uid)) uid = 0"
    unfolding get_balance_def register_user_users
    using a get_balance_loop_absent [OF a] by (simp add: get_balance_loop_append del: map_map)
  with b show ?thesis by simp
qed

theorem get_balance_missing_account_witness:
  "''3'' \<notin> set (map (id_user \<circ> snd) (users WalletDatabase_init))
   \<and> get_balance WalletDatabase_init ''3'' = 0
   \<and> get_balance (snd (register_user WalletDatabase_init ''carol@example.com'' ''h'' ''Carol'' ''3'')) ''3'' = 0"
proof -
  have h: "''3'' \<notin> set (map (id_user \<circ> snd) (users WalletDatabase_init))"
    by (simp add: WalletDatabase_init_def)
  from get_balance_missing_account [OF h, of "''carol@example.com''" "''h''" "''Carol''"] h
  show ?thesis by simp
qed

end
